theory Spec2Isabelle
  imports Complex_Main "HOL-Library.AList" "HOL-Library.Multiset"
begin

section \<open>Data model of the AMBER builder (htmd/builder/amber.py)\<close>

text \<open>
  The exceptions the builder raises or lets escape. \<open>NameError\<close> is what the source
  raises for a missing executable, a missing file, an empty build result and for more than
  999 lipid segments; \<open>AssertionError\<close> is raised by the cap applier; the others come
  from Python and numpy (an index out of range, \<open>int()\<close> of a non-number or of an array
  that does not hold exactly one element, a method called on \<open>None\<close>, the size of a
  file that does not exist).
\<close>

datatype error =
    NameError string
  | AssertionError string
  | IndexError
  | ValueError
  | TypeError
  | AttributeError
  | OSError

text \<open>
  \<^verbatim>\<open>Rule = namedtuple('Rule', ['replaceresname', 'replaceatom', 'order', 'natoms', 'ter'])\<close>
  The rule table is a dict of dicts, keyed by the legacy residue name and then by the legacy
  atom name. Python dicts iterate in insertion order, so both levels are association lists.
\<close>

record Rule =
  replaceresname :: string
  replaceatom :: string
  order :: int
  natoms :: int
  ter :: bool

type_synonym atommap = "(string \<times> Rule) list"
type_synonym resdict = "(string \<times> atommap) list"

text \<open>
  Modelled from the spec: the \<open>Molecule\<close> class (htmd.molecule.molecule) is not among the
  sources. The structure is a record of parallel arrays indexed by atom position: name,
  residue name, residue id, insertion code, chain, segment id, element, 3D coordinate, a
  scratch numeric tag (\<open>beta\<close>), and an explicit bond list of pairs of atom indices.
  The numeric arrays hold floating-point numbers in the program; here they are reals, and
  they are only copied, compared for equality and sorted. The sequence ids that the
  remapper keeps in the scratch tag are small integers, which the floating-point type holds
  exactly.
\<close>

type_synonym coord = "real \<times> real \<times> real"

record Molecule =
  name :: "string list"
  resname :: "string list"
  resid :: "int list"
  insertion :: "string list"
  chain :: "string list"
  segid :: "string list"
  element :: "string list"
  coords :: "coord list"
  beta :: "real list"
  bonds :: "(nat \<times> nat) list"

definition numAtoms :: "Molecule \<Rightarrow> nat" where
  "numAtoms mol = length (name mol)"

text \<open>The invariant of the structure: all per-atom arrays share the length N.\<close>

definition wf_mol :: "Molecule \<Rightarrow> bool" where
  "wf_mol mol \<longleftrightarrow>
     length (resname mol) = numAtoms mol \<and> length (resid mol) = numAtoms mol \<and>
     length (insertion mol) = numAtoms mol \<and> length (chain mol) = numAtoms mol \<and>
     length (segid mol) = numAtoms mol \<and> length (element mol) = numAtoms mol \<and>
     length (coords mol) = numAtoms mol \<and> length (beta mol) = numAtoms mol"

subsection \<open>numpy array operations used by the builder\<close>

text \<open>
  \<open>arr[mask] = v\<close> with a boolean mask and a scalar; \<open>arr[mask] = vals\<close> with an array of
  as many values as the mask selects; \<open>arr[mask]\<close>; \<open>np.where(mask)[0]\<close>;
  \<open>np.unique\<close> (the sorted distinct values); \<open>np.any\<close>. The masks the builder uses are
  computed from arrays of the molecule itself, so under the invariant of the structure a
  mask and the array it indexes have the same length.
\<close>

definition mask_set :: "bool list \<Rightarrow> 'a \<Rightarrow> 'a list \<Rightarrow> 'a list" where
  "mask_set msk v xs = map2 (\<lambda>b x. if b then v else x) msk xs"

fun mask_assign :: "bool list \<Rightarrow> 'a list \<Rightarrow> 'a list \<Rightarrow> 'a list" where
  "mask_assign (b # bs) vs (x # xs) =
     (if b then (case vs of [] \<Rightarrow> x # mask_assign bs [] xs
                 | v # vs' \<Rightarrow> v # mask_assign bs vs' xs)
      else x # mask_assign bs vs xs)"
| "mask_assign bs vs xs = xs"

definition select :: "bool list \<Rightarrow> 'a list \<Rightarrow> 'a list" where
  "select msk xs = map snd (filter fst (zip msk xs))"

definition np_where :: "bool list \<Rightarrow> nat list" where
  "np_where msk = filter (\<lambda>i. msk ! i) [0..<length msk]"

definition unique :: "'a::linorder list \<Rightarrow> 'a list" where
  "unique xs = sort (remdups xs)"

definition np_any :: "bool list \<Rightarrow> bool" where
  "np_any msk = list_ex (\<lambda>b. b) msk"

text \<open>
  \<open>np.argsort(keys)\<close>: the indices that sort the keys in ascending order. numpy's
  default sort leaves the order of equal keys open; the model takes the stable sort of the
  index range by key (equal keys keep their original relative order). The properties
  proved below rest on what every argsort gives: a permutation of the index range along
  which the keys are sorted.
\<close>

definition argsort :: "int list \<Rightarrow> nat list" where
  "argsort ks = sort_key (\<lambda>i. ks ! i) [0..<length ks]"

text \<open>
  \<open>xs[beg:fin] = xs[beg:fin] + beg\<close>: a slice is cut to the length of the array.
\<close>

definition slice_add :: "nat \<Rightarrow> nat \<Rightarrow> int list \<Rightarrow> int list" where
  "slice_add beg fin xs =
     map (\<lambda>(k, x). if beg \<le> k \<and> k < fin then x + int beg else x) (zip [0..<length xs] xs)"

definition slice_mask :: "nat \<Rightarrow> nat \<Rightarrow> nat \<Rightarrow> bool list" where
  "slice_mask n beg fin = map (\<lambda>k. beg \<le> k \<and> k < fin) [0..<n]"

text \<open>
  Modelled from the spec: \<open>sequenceID\<close> (htmd.molecule.util) is not among the sources. It
  is the stable, order-preserving sequence id derived from repeated-value identity,
  scanned in original atom order: the id grows by one at every position whose value
  differs from the value before it. A tuple of fields is the list of the tuples. The id of
  the first element is taken to be 0; no property below depends on it.
\<close>

fun seqid_from :: "int \<Rightarrow> 'a \<Rightarrow> 'a list \<Rightarrow> int list" where
  "seqid_from c prev [] = []"
| "seqid_from c prev (x # xs) =
     (if prev \<noteq> x then (c + 1) # seqid_from (c + 1) x xs else c # seqid_from c x xs)"

definition sequenceID :: "'a list \<Rightarrow> int list" where
  "sequenceID field = (case field of [] \<Rightarrow> [] | x # xs \<Rightarrow> 0 # seqid_from 0 x xs)"

text \<open>Python's \<open>str\<close> of a non-negative integer.\<close>

fun str_nat :: "nat \<Rightarrow> string" where
  "str_nat n = (if n < 10 then [''0123456789'' ! n]
                else str_nat (n div 10) @ [''0123456789'' ! (n mod 10)])"

declare str_nat.simps [simp del]

definition str_int :: "int \<Rightarrow> string" where
  "str_int i = (if i < 0 then CHR ''-'' # str_nat (nat (- i)) else str_nat (nat i))"

subsection \<open>Reordering a molecule\<close>

text \<open>
  \<^verbatim>\<open>
  def _reorderMol(mol, order):
      for k in mol._append_fields:
          if mol.__dict__[k] is not None and np.size(mol.__dict__[k]) != 0:
              if k == 'coords':
                  mol.__dict__[k] = mol.__dict__[k][order, :, :]
              else:
                  mol.__dict__[k] = mol.__dict__[k][order]
  \<close>
  Every per-atom array that is not empty is indexed by the same index array; an index
  beyond the array raises \<open>IndexError\<close>. The bond list is not a per-atom array and is
  left as it is.
\<close>

definition idx_ok :: "'a list \<Rightarrow> nat list \<Rightarrow> bool" where
  "idx_ok xs ord \<longleftrightarrow> xs = [] \<or> list_all (\<lambda>i. i < length xs) ord"

definition pick :: "'a list \<Rightarrow> nat list \<Rightarrow> 'a list" where
  "pick xs ord = (if xs = [] then [] else map (\<lambda>i. xs ! i) ord)"

definition reorderMol :: "Molecule \<Rightarrow> nat list \<Rightarrow> error + Molecule" where
  "reorderMol mol ord =
     (if idx_ok (name mol) ord \<and> idx_ok (resname mol) ord \<and> idx_ok (resid mol) ord \<and>
         idx_ok (insertion mol) ord \<and> idx_ok (chain mol) ord \<and> idx_ok (segid mol) ord \<and>
         idx_ok (element mol) ord \<and> idx_ok (coords mol) ord \<and> idx_ok (beta mol) ord
      then Inr (mol\<lparr>name := pick (name mol) ord, resname := pick (resname mol) ord,
                    resid := pick (resid mol) ord, insertion := pick (insertion mol) ord,
                    chain := pick (chain mol) ord, segid := pick (segid mol) ord,
                    element := pick (element mol) ord, coords := pick (coords mol) ord,
                    beta := pick (beta mol) ord\<rparr>)
      else Inl IndexError)"

section \<open>The residue remapper and the resegmenter (\<open>_charmmLipid2Amber\<close>)\<close>

text \<open>
  The working state of the renaming loop: the private copy of the molecule, the order
  keys (\<open>neworder\<close>, initially the index range) and the four marker arrays.
\<close>

record remap_state =
  rmol :: Molecule
  neworder :: "int list"
  begs :: "bool list"
  fins :: "bool list"
  begters :: "bool list"
  finters :: "bool list"

text \<open>
  The body of the inner loop, for one atom name of the rule table:
  \<^verbatim>\<open>
  molatomidx = np.zeros(len(names), dtype=bool)
  molatomidx[molresidx] = names[molresidx] == atom
  mol.set('resname', rule.replaceresname, sel=molatomidx)
  mol.set('name', rule.replaceatom, sel=molatomidx)
  neworder[molatomidx] = rule.order
  if rule.order == 0: begs[molatomidx] = True
  if rule.order == rule.natoms - 1: fins[molatomidx] = True
  if rule.order == 0 and rule.ter: begters[molatomidx] = True
  if rule.order == rule.natoms - 1 and rule.ter: finters[molatomidx] = True
  \<close>
\<close>

definition apply_rule :: "bool list \<Rightarrow> string list \<Rightarrow> string \<Rightarrow> Rule \<Rightarrow> remap_state \<Rightarrow> remap_state" where
  "apply_rule molresidx names atom rule st =
     (let molatomidx = map2 (\<lambda>r n. r \<and> n = atom) molresidx names;
          m = rmol st
      in st\<lparr>rmol := m\<lparr>resname := mask_set molatomidx (replaceresname rule) (resname m),
                         name := mask_set molatomidx (replaceatom rule) (name m)\<rparr>,
             neworder := mask_set molatomidx (order rule) (neworder st),
             begs := (if order rule = 0 then mask_set molatomidx True (begs st) else begs st),
             fins := (if order rule = natoms rule - 1
                      then mask_set molatomidx True (fins st) else fins st),
             begters := (if order rule = 0 \<and> ter rule
                         then mask_set molatomidx True (begters st) else begters st),
             finters := (if order rule = natoms rule - 1 \<and> ter rule
                         then mask_set molatomidx True (finters st) else finters st)\<rparr>)"

text \<open>
  \<^verbatim>\<open>
  for atom in atommap.keys():
      rule = atommap[atom]
      ...
  \<close>
  The keys of a dict are distinct, so the loop visits the entries of the association list.
\<close>

fun atom_loop :: "bool list \<Rightarrow> string list \<Rightarrow> atommap \<Rightarrow> remap_state \<Rightarrow> remap_state" where
  "atom_loop molresidx names [] st = st"
| "atom_loop molresidx names ((atom, rule) # rest) st =
     atom_loop molresidx names rest (apply_rule molresidx names atom rule st)"

text \<open>
  \<^verbatim>\<open>
  for res in resdict.keys():
      molresidx = mol.resname == res
      if not np.any(molresidx):
          continue
      names = mol.name.copy()
      atommap = resdict[res]
      for atom in atommap.keys(): ...
  \<close>
  The residue mask and the copy of the names are taken once per residue name, from the
  molecule as the earlier residue names of the table have left it.
\<close>

fun res_loop :: "resdict \<Rightarrow> remap_state \<Rightarrow> remap_state" where
  "res_loop [] st = st"
| "res_loop ((res, atommap) # rest) st =
     (let molresidx = map (\<lambda>r. r = res) (resname (rmol st))
      in if \<not> np_any molresidx then res_loop rest st
         else res_loop rest (atom_loop molresidx (name (rmol st)) atommap st))"

text \<open>
  \<^verbatim>\<open>
  betas = np.unique(mol.beta[begs])
  for i in range(len(betas)):
      residuebegs[i] = np.where(mol.beta == betas[i])[0][0]
      residuefins[i] = np.where(mol.beta == betas[i])[0][-1]
  for i in range(len(residuebegs)):
      beg = residuebegs[i]
      fin = residuefins[i] + 1
      neworder[beg:fin] = neworder[beg:fin] + beg
  \<close>
  Indexing the empty result of \<open>np.where\<close> raises \<open>IndexError\<close>.
\<close>

definition first_last :: "'a list \<Rightarrow> 'a \<Rightarrow> error + (nat \<times> nat)" where
  "first_last xs b =
     (case np_where (map (\<lambda>x. x = b) xs) of
        [] \<Rightarrow> Inl IndexError
      | k # ks \<Rightarrow> Inr (k, last (k # ks)))"

fun residue_bounds :: "'a list \<Rightarrow> 'a list \<Rightarrow> error + (nat \<times> nat) list" where
  "residue_bounds bs [] = Inr []"
| "residue_bounds bs (b # rest) =
     (case first_last bs b of
        Inl e \<Rightarrow> Inl e
      | Inr bf \<Rightarrow> (case residue_bounds bs rest of Inl e \<Rightarrow> Inl e | Inr bfs \<Rightarrow> Inr (bf # bfs)))"

fun offset_loop :: "(nat \<times> nat) list \<Rightarrow> int list \<Rightarrow> int list" where
  "offset_loop [] ks = ks"
| "offset_loop ((beg, fin) # rest) ks = offset_loop rest (slice_add beg (fin + 1) ks)"

text \<open>
  The remapper up to the reordering (lines 319 to 369 of amber.py). The rule table is read
  from a file of the installation by \<open>_readcsvdict\<close>; here it is the argument
  \<open>resdict\<close>. The sequence ids are stored in the scratch tag array of the private copy,
  the permutation \<open>idx\<close> is the argsort of the order keys, the scratch tag is restored from
  its backup and the molecule is reordered by \<open>idx\<close>. The result holds the reordered
  molecule, the permutation, and the terminal markers of the renaming loop.
  \<^verbatim>\<open>
  betabackup = mol.beta.copy()
  mol = mol.copy()
  mol.set('beta', sequenceID(mol.resid))
  ...
  idx = np.argsort(neworder)
  mol.beta = betabackup
  _reorderMol(mol, idx)
  \<close>
\<close>

definition init_state :: "Molecule \<Rightarrow> remap_state" where
  "init_state mol =
     (let natoms' = numAtoms mol
      in \<lparr>rmol = mol\<lparr>beta := map real_of_int (sequenceID (resid mol))\<rparr>,
          neworder = map int [0..<natoms'],
          begs = replicate natoms' False, fins = replicate natoms' False,
          begters = replicate natoms' False, finters = replicate natoms' False\<rparr>)"

definition remap :: "resdict \<Rightarrow> Molecule \<Rightarrow> error + (Molecule \<times> nat list \<times> bool list \<times> bool list)" where
  "remap resdict mol =
     (let betabackup = beta mol;
          st = res_loop resdict (init_state mol);
          m = rmol st;
          betas = unique (select (begs st) (beta m))
      in case residue_bounds (beta m) betas of
           Inl e \<Rightarrow> Inl e
         | Inr bounds \<Rightarrow>
             (let idx = argsort (offset_loop bounds (neworder st))
              in case reorderMol (m\<lparr>beta := betabackup\<rparr>) idx of
                   Inl e \<Rightarrow> Inl e
                 | Inr m' \<Rightarrow> Inr (m', idx, begters st, finters st)))"

text \<open>
  The resegmenter (lines 371 to 383):
  \<^verbatim>\<open>
  begters = np.where(begters[idx])[0]  # Sort the begs and ters
  finters = np.where(finters[idx])[0]
  if len(begters) > 999:
      raise NameError('More than 999 lipids. Cannot define separate segments for all of them.')
  for i in range(len(begters)):
      map = np.zeros(len(mol.resid), dtype=bool)
      map[begters[i]:finters[i]+1] = True
      mol.set('resid', sequenceID(mol.get('resname', sel=map)), sel=map)
      mol.set('segid', 'L' + str(i+1), sel=map)
  return mol
  \<close>
  \<open>finters[i]\<close> raises \<open>IndexError\<close> when there are fewer end markers than begin markers.
\<close>

definition label_run :: "nat \<Rightarrow> nat \<Rightarrow> nat \<Rightarrow> Molecule \<Rightarrow> Molecule" where
  "label_run i b f mol =
     (let msk = slice_mask (length (resid mol)) b (f + 1);
          m1 = mol\<lparr>resid := mask_assign msk (sequenceID (select msk (resname mol)))
                               (resid mol)\<rparr>
      in m1\<lparr>segid := mask_set msk (''L'' @ str_nat (i + 1)) (segid m1)\<rparr>)"

fun reseg_loop :: "nat \<Rightarrow> nat list \<Rightarrow> nat list \<Rightarrow> Molecule \<Rightarrow> error + Molecule" where
  "reseg_loop i [] fs mol = Inr mol"
| "reseg_loop i (b # bs) fs mol =
     (if length fs \<le> i then Inl IndexError
      else reseg_loop (i + 1) bs fs (label_run i b (fs ! i) mol))"

definition resegment :: "Molecule \<Rightarrow> nat list \<Rightarrow> bool list \<Rightarrow> bool list \<Rightarrow> error + Molecule" where
  "resegment mol idx bt ft =
     (let begters' = np_where (map (\<lambda>i. bt ! i) idx);
          finters' = np_where (map (\<lambda>i. ft ! i) idx)
      in if length begters' > 999
         then Inl (NameError ''More than 999 lipids. Cannot define separate segments for all of them.'')
         else reseg_loop 0 begters' finters' mol)"

definition charmmLipid2Amber :: "resdict \<Rightarrow> Molecule \<Rightarrow> error + Molecule" where
  "charmmLipid2Amber resdict mol =
     (case remap resdict mol of
        Inl e \<Rightarrow> Inl e
      | Inr (m, idx, bt, ft) \<Rightarrow> resegment m idx bt ft)"

subsection \<open>Notions used to state the properties of the remapper\<close>

text \<open>
  The (legacy residue name, legacy atom name) pairs that have an entry in the rule table.
\<close>

definition rule_keys :: "resdict \<Rightarrow> (string \<times> string) list" where
  "rule_keys resdict = concat (map (\<lambda>(res, am). map (\<lambda>(atom, rule). (res, atom)) am) resdict)"

text \<open>The arrays of the renaming loop all have the length \<open>n\<close>.\<close>

definition st_ok :: "nat \<Rightarrow> remap_state \<Rightarrow> bool" where
  "st_ok n st \<longleftrightarrow>
     length (name (rmol st)) = n \<and> length (resname (rmol st)) = n \<and>
     length (neworder st) = n \<and> length (begs st) = n \<and> length (fins st) = n \<and>
     length (begters st) = n \<and> length (finters st) = n"

text \<open>The fields that renaming leaves alone agree in two molecules.\<close>

definition same_rest :: "Molecule \<Rightarrow> Molecule \<Rightarrow> bool" where
  "same_rest m m' \<longleftrightarrow>
     resid m' = resid m \<and> insertion m' = insertion m \<and> chain m' = chain m \<and>
     segid m' = segid m \<and> element m' = element m \<and> coords m' = coords m \<and>
     beta m' = beta m \<and> bonds m' = bonds m"

text \<open>The molecule as the renaming loop leaves it, before the reordering.\<close>

definition renamed :: "resdict \<Rightarrow> Molecule \<Rightarrow> Molecule" where
  "renamed resdict mol = rmol (res_loop resdict (init_state mol))"

text \<open>A molecule with every per-atom array indexed by the same index array.\<close>

definition permuted :: "Molecule \<Rightarrow> nat list \<Rightarrow> Molecule" where
  "permuted m idx =
     m\<lparr>name := map (\<lambda>i. name m ! i) idx, resname := map (\<lambda>i. resname m ! i) idx,
       resid := map (\<lambda>i. resid m ! i) idx, insertion := map (\<lambda>i. insertion m ! i) idx,
       chain := map (\<lambda>i. chain m ! i) idx, segid := map (\<lambda>i. segid m ! i) idx,
       element := map (\<lambda>i. element m ! i) idx, coords := map (\<lambda>i. coords m ! i) idx,
       beta := map (\<lambda>i. beta m ! i) idx\<rparr>"

subsection \<open>A two-atom residue and its rule table\<close>

text \<open>
  The rule table maps residue X, atom A2 to position 1 of 2 (terminal) and atom A1 to
  position 0 of 2 (not terminal); the residue lists its atoms in the file order A2, A1.
  A second table has rules for another residue only.
\<close>

definition ex_rules :: resdict where
  "ex_rules =
     [(''X'', [(''A2'', \<lparr>replaceresname = ''XM'', replaceatom = ''B2'', order = 1, natoms = 2, ter = True\<rparr>),
               (''A1'', \<lparr>replaceresname = ''XM'', replaceatom = ''B1'', order = 0, natoms = 2, ter = False\<rparr>)])]"

definition other_rules :: resdict where
  "other_rules =
     [(''Y'', [(''A1'', \<lparr>replaceresname = ''YM'', replaceatom = ''B1'', order = 0, natoms = 1, ter = True\<rparr>)])]"

definition ex_mol :: Molecule where
  "ex_mol =
     \<lparr>name = [''A2'', ''A1''], resname = [''X'', ''X''], resid = [1, 1],
      insertion = ['''', ''''], chain = [''A'', ''A''], segid = [''S'', ''S''],
      element = [''C'', ''C''], coords = [(0, 0, 0), (1, 1, 1)], beta = [1 / 2, 3 / 2],
      bonds = []\<rparr>"


subsection \<open>Notions used to state the properties of the resegmenter\<close>

text \<open>Run \<open>j\<close> of the rest of the loop, which started at run \<open>i\<close>, covers position \<open>p\<close>.\<close>

definition covers :: "nat list \<Rightarrow> nat list \<Rightarrow> nat \<Rightarrow> nat \<Rightarrow> nat \<Rightarrow> bool" where
  "covers bs fs i j p \<longleftrightarrow> bs ! j \<le> p \<and> p \<le> fs ! (i + j)"

text \<open>
  Position \<open>p\<close> lies in run \<open>i\<close>: between the \<open>i\<close>-th begin marker and the \<open>i\<close>-th end marker.
\<close>

definition in_run :: "nat list \<Rightarrow> nat list \<Rightarrow> nat \<Rightarrow> nat \<Rightarrow> bool" where
  "in_run B F i p \<longleftrightarrow> B ! i \<le> p \<and> p \<le> F ! i"

text \<open>
  A rule table for a two-atom lipid whose first and last atoms are both terminal, a
  structure of \<open>n\<close> such lipids, and a lipid that lacks its last atom.
\<close>

definition lipid_rules :: resdict where
  "lipid_rules =
     [(''X'', [(''A1'', \<lparr>replaceresname = ''XM'', replaceatom = ''B1'', order = 0, natoms = 2, ter = True\<rparr>),
               (''A2'', \<lparr>replaceresname = ''XM'', replaceatom = ''B2'', order = 1, natoms = 2, ter = True\<rparr>)])]"

definition lipids :: "nat \<Rightarrow> Molecule" where
  "lipids n =
     \<lparr>name = concat (replicate n [''A1'', ''A2'']), resname = replicate (2 * n) ''X'',
      resid = concat (map (\<lambda>k. [int k, int k]) [0..<n]), insertion = replicate (2 * n) '''',
      chain = replicate (2 * n) ''L'', segid = replicate (2 * n) ''M'',
      element = replicate (2 * n) ''C'', coords = replicate (2 * n) (0, 0, 0),
      beta = replicate (2 * n) 0, bonds = []\<rparr>"

definition open_lipid :: Molecule where
  "open_lipid =
     \<lparr>name = [''A1''], resname = [''X''], resid = [1], insertion = [''''], chain = [''L''],
      segid = [''M''], element = [''C''], coords = [(0, 0, 0)], beta = [0], bonds = []\<rparr>"

subsection \<open>Notions used to state the ordering property\<close>

text \<open>
  The lookup \<open>resdict[res][atom]\<close> of the rule table, absent when either key is missing.
\<close>

definition rule_for :: "resdict \<Rightarrow> string \<Rightarrow> string \<Rightarrow> Rule option" where
  "rule_for resdict res atom =
     (case map_of resdict res of None \<Rightarrow> None | Some am \<Rightarrow> map_of am atom)"

text \<open>The keys of a dict are distinct, at both levels of the table.\<close>

definition wf_table :: "resdict \<Rightarrow> bool" where
  "wf_table resdict \<longleftrightarrow>
     distinct (map fst resdict) \<and> list_all (\<lambda>(res, am). distinct (map fst am)) resdict"

text \<open>What the renaming loop holds for one atom: residue name, atom name and order key.\<close>

definition atom_view :: "remap_state \<Rightarrow> nat \<Rightarrow> string \<times> string \<times> int" where
  "atom_view st i = (resname (rmol st) ! i, name (rmol st) ! i, neworder st ! i)"

text \<open>The two-atom residue with its atoms listed in the other file order, A1 before A2.\<close>

definition ex_mol_sorted :: Molecule where
  "ex_mol_sorted =
     \<lparr>name = [''A1'', ''A2''], resname = [''X'', ''X''], resid = [1, 1],
      insertion = ['''', ''''], chain = [''A'', ''A''], segid = [''S'', ''S''],
      element = [''C'', ''C''], coords = [(1, 1, 1), (0, 0, 0)], beta = [3 / 2, 1 / 2],
      bonds = []\<rparr>"

section \<open>Loading the rule table (\<open>_readcsvdict\<close>)\<close>

text \<open>
  A row as \<open>csv.DictReader\<close> yields it, with its five columns \<open>search\<close>, \<open>replace\<close>,
  \<open>order\<close>, \<open>num_atom\<close> and \<open>TER\<close> as text.
\<close>

record csvrow =
  col_search :: string
  col_replace :: string
  col_order :: string
  col_num_atom :: string
  col_TER :: string

text \<open>
  Python's \<open>str.split()\<close> without arguments: the maximal runs of characters that are
  not whitespace. The whitespace characters of the ASCII range are the space, the
  characters 9 to 13 and 28 to 31.
\<close>

definition is_space :: "char \<Rightarrow> bool" where
  "is_space c \<longleftrightarrow> (let n = (of_char c :: nat) in n = 32 \<or> (9 \<le> n \<and> n \<le> 13) \<or> (28 \<le> n \<and> n \<le> 31))"

fun split_from :: "string \<Rightarrow> string \<Rightarrow> string list" where
  "split_from cur [] = (if cur = [] then [] else [cur])"
| "split_from cur (c # cs) =
     (if is_space c then (if cur = [] then split_from [] cs else cur # split_from [] cs)
      else split_from (cur @ [c]) cs)"

definition str_split :: "string \<Rightarrow> string list" where
  "str_split s = split_from [] s"

text \<open>
  Python's \<open>int()\<close> of a string: whitespace around the number is dropped, a sign may
  precede the digits, and single underscores may stand between digits. Anything else
  raises \<open>ValueError\<close>, which is \<open>None\<close> here.
\<close>

definition is_digit :: "char \<Rightarrow> bool" where
  "is_digit c \<longleftrightarrow> (48::nat) \<le> of_char c \<and> of_char c \<le> (57::nat)"

definition digit_val :: "char \<Rightarrow> nat" where
  "digit_val c = of_char c - 48"

fun digits_from :: "nat \<Rightarrow> string \<Rightarrow> nat option" where
  "digits_from acc [] = Some acc"
| "digits_from acc [c] = (if is_digit c then Some (10 * acc + digit_val c) else None)"
| "digits_from acc (c # d # cs) =
     (if is_digit c then digits_from (10 * acc + digit_val c) (d # cs)
      else if c = CHR ''_'' \<and> is_digit d then digits_from acc (d # cs)
      else None)"

definition digits :: "string \<Rightarrow> nat option" where
  "digits s = (case s of [] \<Rightarrow> None
               | c # cs \<Rightarrow> if is_digit c then digits_from 0 (c # cs) else None)"

definition strip :: "string \<Rightarrow> string" where
  "strip s = rev (dropWhile is_space (rev (dropWhile is_space s)))"

definition py_int :: "string \<Rightarrow> int option" where
  "py_int s =
     (case strip s of
        [] \<Rightarrow> None
      | c # cs \<Rightarrow>
          if c = CHR ''-'' then map_option (\<lambda>n. - int n) (digits cs)
          else if c = CHR ''+'' then map_option int (digits cs)
          else map_option int (digits (c # cs)))"

text \<open>
  The body of the loop over the rows:
  \<^verbatim>\<open>
  searchres = line['search'].split()[1]
  searchatm = line['search'].split()[0]
  if searchres not in resdict:
      resdict[searchres] = dict()
  resdict[searchres][searchatm] = Rule(line['replace'].split()[1], line['replace'].split()[0],
                                       int(line['order']), int(line['num_atom']),
                                       line['TER'] == 'True')
  \<close>
  Indexing the token list raises \<open>IndexError\<close> when there are fewer than two tokens;
  further tokens are not looked at. The flag is a comparison with the text \<open>True\<close>.
\<close>

definition parse_row :: "csvrow \<Rightarrow> error + (string \<times> string \<times> Rule)" where
  "parse_row line =
     (let s = str_split (col_search line)
      in if length s < 2 then Inl IndexError
         else (let r = str_split (col_replace line)
               in if length r < 2 then Inl IndexError
                  else (case py_int (col_order line) of
                          None \<Rightarrow> Inl ValueError
                        | Some ord \<Rightarrow>
                            (case py_int (col_num_atom line) of
                               None \<Rightarrow> Inl ValueError
                             | Some na \<Rightarrow>
                                 Inr (s ! 1, s ! 0,
                                      \<lparr>replaceresname = r ! 1, replaceatom = r ! 0,
                                       order = ord, natoms = na,
                                       ter = (col_TER line = ''True'')\<rparr>)))))"

text \<open>
  Storing into the dict of dicts: a new key is appended, the value of a key that is
  present is replaced where it stands.
\<close>

definition store_rule :: "resdict \<Rightarrow> string \<Rightarrow> string \<Rightarrow> Rule \<Rightarrow> resdict" where
  "store_rule rd res atm rule =
     AList.update res
       (AList.update atm rule (case map_of rd res of None \<Rightarrow> [] | Some am \<Rightarrow> am)) rd"

fun load_rows :: "csvrow list \<Rightarrow> resdict \<Rightarrow> error + resdict" where
  "load_rows [] rd = Inr rd"
| "load_rows (line # rest) rd =
     (case parse_row line of
        Inl e \<Rightarrow> Inl e
      | Inr (res, atm, rule) \<Rightarrow> load_rows rest (store_rule rd res atm rule))"

text \<open>
  \<^verbatim>\<open>
  if os.path.isfile(filename):
      csvfile = open(filename, 'r')
  else:
      raise NameError('File ' + filename + ' does not exist')
  \<close>
  The file is its list of rows after the two header lines, or \<open>None\<close> when it does not
  exist.
\<close>

definition readcsvdict :: "csvrow list option \<Rightarrow> error + resdict" where
  "readcsvdict file =
     (case file of
        None \<Rightarrow> Inl (NameError ''File does not exist'')
      | Some rows \<Rightarrow> load_rows rows [])"

subsection \<open>Notions used to state the properties of the loader\<close>

text \<open>
  A row loads: both pairs have at least two tokens and both numbers are integer literals.
\<close>

definition row_ok :: "csvrow \<Rightarrow> bool" where
  "row_ok line \<longleftrightarrow>
     2 \<le> length (str_split (col_search line)) \<and> 2 \<le> length (str_split (col_replace line)) \<and>
     py_int (col_order line) \<noteq> None \<and> py_int (col_num_atom line) \<noteq> None"

text \<open>The key and the rule that a row which loads stands for.\<close>

definition row_rule :: "csvrow \<Rightarrow> (string \<times> string) \<times> Rule" where
  "row_rule line =
     ((str_split (col_search line) ! 1, str_split (col_search line) ! 0),
      \<lparr>replaceresname = str_split (col_replace line) ! 1,
       replaceatom = str_split (col_replace line) ! 0,
       order = the (py_int (col_order line)), natoms = the (py_int (col_num_atom line)),
       ter = (col_TER line = ''True'')\<rparr>)"

definition ex_rows :: "csvrow list" where
  "ex_rows =
     [\<lparr>col_search = ''A2 X'', col_replace = ''B2 XM'', col_order = ''1'', col_num_atom = ''2'',
       col_TER = ''True''\<rparr>,
      \<lparr>col_search = ''A1 X'', col_replace = ''B1 XM'', col_order = ''0'', col_num_atom = ''2'',
       col_TER = ''False''\<rparr>]"

definition loose_row :: csvrow where
  "loose_row =
     \<lparr>col_search = ''A1 X extra'', col_replace = ''B1 XM more'', col_order = '' 0 '',
      col_num_atom = ''+2'', col_TER = ''maybe''\<rparr>"

definition bad_row :: csvrow where
  "bad_row =
     \<lparr>col_search = ''A1 X'', col_replace = ''B1 XM'', col_order = ''first'', col_num_atom = ''2'',
      col_TER = ''True''\<rparr>"

section \<open>The terminal cap applier (\<open>_applyCaps\<close>)\<close>

text \<open>
  Modelled from the spec: atom selection and removal belong to the \<open>Molecule\<close> class,
  which is not among the sources. \<open>select(predicate)\<close> gives the atoms that satisfy a
  predicate; the builder only selects by segment id, residue id, residue name and a list of
  atom names, joined by \<open>and\<close>. \<open>remove(indices)\<close> compacts all per-atom arrays; bonds
  of a removed atom are dropped and the others are renumbered.
\<close>

datatype sel = Segid string | Resid int | Resname string | Name "string list" | And sel sel

fun sel_at :: "Molecule \<Rightarrow> sel \<Rightarrow> nat \<Rightarrow> bool" where
  "sel_at mol (Segid s) i = (segid mol ! i = s)"
| "sel_at mol (Resid r) i = (resid mol ! i = r)"
| "sel_at mol (Resname r) i = (resname mol ! i = r)"
| "sel_at mol (Name ns) i = (name mol ! i \<in> set ns)"
| "sel_at mol (And a b) i = (sel_at mol a i \<and> sel_at mol b i)"

definition atomselect :: "Molecule \<Rightarrow> sel \<Rightarrow> bool list" where
  "atomselect mol s = map (sel_at mol s) [0..<numAtoms mol]"

definition new_index :: "bool list \<Rightarrow> nat \<Rightarrow> nat" where
  "new_index torem i = i - length (filter id (take i torem))"

definition remove_atoms :: "Molecule \<Rightarrow> bool list \<Rightarrow> Molecule" where
  "remove_atoms mol torem =
     (let keep = map Not torem
      in mol\<lparr>name := select keep (name mol), resname := select keep (resname mol),
              resid := select keep (resid mol), insertion := select keep (insertion mol),
              chain := select keep (chain mol), segid := select keep (segid mol),
              element := select keep (element mol), coords := select keep (coords mol),
              beta := select keep (beta mol),
              bonds := map (\<lambda>(a, b). (new_index torem a, new_index torem b))
                         (filter (\<lambda>(a, b). \<not> torem ! a \<and> \<not> torem ! b) (bonds mol))\<rparr>)"

text \<open>What the logger receives.\<close>

datatype logmsg = Info string | Warning string

text \<open>
  The terminal atom to modify: the single atom with one of the primary names, else the
  single atom with the fallback name (logged), else an \<open>AssertionError\<close>.
  \<^verbatim>\<open>
  if len(ntermAtomToMod) != 1:
      ntermAtomToMod = mol.atomselect('segid {} and resid {} and name H'.format(...), indexes=True)
      if len(ntermAtomToMod) == 1:
          logger.info("Segid {}, resid {} does not have OXT or OT1, falling back at atom H".format(...))
      else:
          raise AssertionError('Segment {}, resid {} should have an H2, an HT2, or an H atom. Cannot cap.'.format(...))
  \<close>
\<close>

definition term_atom :: "nat list \<Rightarrow> nat list \<Rightarrow> string \<Rightarrow> string \<Rightarrow> error + (nat \<times> logmsg list)" where
  "term_atom primary fallback info_text error_text =
     (case primary of
        [k] \<Rightarrow> Inr (k, [])
      | _ \<Rightarrow> (case fallback of
                 [k] \<Rightarrow> Inr (k, [Info info_text])
               | _ \<Rightarrow> Inl (AssertionError error_text)))"

text \<open>
  The capping of one segment that is not yet capped (lines 241 to 281):
  the first and last atom of the segment, the lowest and highest residue id, the two
  terminal atoms, their relabelling, the swap of each relabelled atom with the first or
  last atom of the segment, and the removal of the hydrogens H1, H3, HT1, HT3 of the
  former first residue, with a warning when they are not exactly two.
\<close>

definition cap_atoms :: "string \<Rightarrow> string \<Rightarrow> string \<Rightarrow> Molecule \<Rightarrow> logmsg list \<Rightarrow> error + (Molecule \<times> logmsg list)" where
  "cap_atoms seg ncap ccap mol lg =
     (let segment = atomselect mol (Segid seg)
      in case np_where segment of
           [] \<Rightarrow> Inl IndexError
         | segmentfirst # others \<Rightarrow>
             (let segmentlast = last (segmentfirst # others)
              in case select segment (resid mol) of
                   [] \<Rightarrow> Inl ValueError
                 | r # rs \<Rightarrow>
                     (let minr = fold min rs r; maxr = fold max rs r;
                          here = ''Segid '' @ seg @ '', resid '';
                          nsel = (\<lambda>ns. np_where (atomselect mol
                                    (And (Segid seg) (And (Resid minr) (Name ns)))));
                          csel = (\<lambda>ns. np_where (atomselect mol
                                    (And (Segid seg) (And (Resid maxr) (Name ns)))))
                      in case term_atom (nsel [''H2'', ''HT2'']) (nsel [''H''])
                                (here @ str_int minr @ '' does not have OXT or OT1, falling back at atom H'')
                                (''Segment '' @ seg @ '', resid '' @ str_int minr @
                                 '' should have an H2, an HT2, or an H atom. Cannot cap.'') of
                           Inl e \<Rightarrow> Inl e
                         | Inr (n, lgn) \<Rightarrow>
                       (case term_atom (csel [''OXT'', ''OT1'']) (csel [''O''])
                                (here @ str_int maxr @ '' does not have OXT or OT1, falling back at atom O'')
                                (''Segment '' @ seg @ '', resid '' @ str_int maxr @
                                 '' should have an OXT, an OT1, or an O atom. Cannot cap.'') of
                           Inl e \<Rightarrow> Inl e
                         | Inr (c, lgc) \<Rightarrow>
                       (let m1 = mol\<lparr>resname := (resname mol)[n := ncap]\<rparr>;
                            m2 = m1\<lparr>name := (name m1)[n := ''C'']\<rparr>;
                            m3 = m2\<lparr>resid := (resid m2)[n := minr - 1]\<rparr>;
                            m4 = m3\<lparr>resname := (resname m3)[c := ccap]\<rparr>;
                            m5 = m4\<lparr>name := (name m4)[c := ''N'']\<rparr>;
                            m6 = m5\<lparr>resid := (resid m5)[c := maxr + 1]\<rparr>;
                            neworder' = [0..<numAtoms m6]
                                          [n := segmentfirst, segmentfirst := n,
                                           c := segmentlast, segmentlast := c]
                        in case reorderMol m6 neworder' of
                             Inl e \<Rightarrow> Inl e
                           | Inr m7 \<Rightarrow>
                               (let torem = atomselect m7 (And (Segid seg) (And (Resid minr)
                                              (Name [''H1'', ''H3'', ''HT1'', ''HT3''])));
                                    lgr = (if length (filter id torem) \<noteq> 2
                                           then [Warning (''Segment '' @ seg @ '', resid '' @ str_int minr @
                                                   '' should have H[123] or HT[123] atoms. Cannot cap.'')]
                                           else [])
                                in Inr (remove_atoms m7 torem, lg @ lgn @ lgc @ lgr)))))))"

text \<open>
  One round of the loop over the segments of the cap configuration:
  \<^verbatim>\<open>
  aceatm = mol.atomselect('segid {} and resname ACE'.format(seg))
  nmeatm = mol.atomselect('segid {} and resname NME'.format(seg))
  if np.sum(aceatm) != 0 and np.sum(nmeatm) != 0:
      logger.warning('ACE and NME caps detected on segid {}.'.format(seg))
      continue
  \<close>
  The test names the residues \<open>ACE\<close> and \<open>NME\<close>, whatever the configured cap names are.
\<close>

definition cap_segment :: "string \<Rightarrow> string \<Rightarrow> string \<Rightarrow> Molecule \<Rightarrow> logmsg list \<Rightarrow> error + (Molecule \<times> logmsg list)" where
  "cap_segment seg ncap ccap mol lg =
     (if np_any (atomselect mol (And (Segid seg) (Resname ''ACE''))) \<and>
         np_any (atomselect mol (And (Segid seg) (Resname ''NME'')))
      then Inr (mol, lg @ [Warning (''ACE and NME caps detected on segid '' @ seg @ ''.'')])
      else cap_atoms seg ncap ccap mol lg)"

text \<open>
  The cap configuration is a dict from segment id to the pair of cap residue names
  (\<open>caps[seg][0]\<close>, \<open>caps[seg][1]\<close>); \<open>for seg in caps\<close> visits it in insertion order.
\<close>

type_synonym capsdict = "(string \<times> string \<times> string) list"

fun applyCaps_loop :: "capsdict \<Rightarrow> Molecule \<Rightarrow> logmsg list \<Rightarrow> error + (Molecule \<times> logmsg list)" where
  "applyCaps_loop [] mol lg = Inr (mol, lg)"
| "applyCaps_loop ((seg, ncap, ccap) # rest) mol lg =
     (case cap_segment seg ncap ccap mol lg of
        Inl e \<Rightarrow> Inl e
      | Inr (mol', lg') \<Rightarrow> applyCaps_loop rest mol' lg')"

definition applyCaps :: "Molecule \<Rightarrow> capsdict \<Rightarrow> error + (Molecule \<times> logmsg list)" where
  "applyCaps mol caps = applyCaps_loop caps mol []"

text \<open>
  \<^verbatim>\<open>
  def _defaultCaps(mol):
      segsProt = np.unique(mol.get('segid', sel='protein'))
      caps = dict()
      for s in segsProt:
          caps[s] = ['ACE', 'NME']
      return caps
  \<close>
  Which atoms are protein is decided by the selection language; the distinct segment ids
  of the protein atoms, \<open>segsProt\<close>, are an argument here.
\<close>

definition defaultCaps :: "string list \<Rightarrow> capsdict" where
  "defaultCaps segsProt = map (\<lambda>s. (s, ''ACE'', ''NME'')) segsProt"

subsection \<open>A glycine to cap\<close>

definition gly :: Molecule where
  "gly =
     \<lparr>name = [''N'', ''H1'', ''H2'', ''H3'', ''CA'', ''C'', ''O'', ''OXT''],
      resname = replicate 8 ''GLY'', resid = replicate 8 1, insertion = replicate 8 '''',
      chain = replicate 8 ''A'', segid = replicate 8 ''P'',
      element = [''N'', ''H'', ''H'', ''H'', ''C'', ''C'', ''O'', ''O''],
      coords = replicate 8 (0, 0, 0), beta = replicate 8 0, bonds = []\<rparr>"

subsection \<open>Notions used to state the properties of the cap applier\<close>

text \<open>A segment carries both caps in the sense of the test: residues ACE and NME occur on it.\<close>

definition capped :: "Molecule \<Rightarrow> string \<Rightarrow> bool" where
  "capped mol seg \<longleftrightarrow>
     np_any (atomselect mol (And (Segid seg) (Resname ''ACE''))) \<and>
     np_any (atomselect mol (And (Segid seg) (Resname ''NME'')))"

text \<open>The glycine capped with ACE and NME, and capped with ACE and NHE.\<close>

definition gly_capped :: Molecule where
  "gly_capped =
     \<lparr>name = [''C'', ''N'', ''CA'', ''C'', ''O'', ''N''],
      resname = [''ACE'', ''GLY'', ''GLY'', ''GLY'', ''GLY'', ''NME''],
      resid = [0, 1, 1, 1, 1, 2], insertion = replicate 6 '''',
      chain = replicate 6 ''A'', segid = replicate 6 ''P'',
      element = [''H'', ''N'', ''C'', ''C'', ''O'', ''O''],
      coords = replicate 6 (0, 0, 0), beta = replicate 6 0, bonds = []\<rparr>"

definition gly_nhe :: Molecule where
  "gly_nhe = gly_capped\<lparr>resname := [''ACE'', ''GLY'', ''GLY'', ''GLY'', ''GLY'', ''NHE'']\<rparr>"

section \<open>Disulfide bonds and the build orchestrator (\<open>build\<close>)\<close>

subsection \<open>One disulfide pair\<close>

text \<open>
  A detected or caller-supplied pair names two residues by segment id and residue id.
  \<^verbatim>\<open>
  for d in disulfide:
      # Convert to stupid amber residue numbering
      uqseqid = sequenceID((mol.resid, mol.insertion, mol.segid)) + mol.resid[0] - 1
      uqres1 = int(np.unique(uqseqid[mol.atomselect('segid {} and resid {}'.format(d.segid1, d.resid1))]))
      uqres2 = int(np.unique(uqseqid[mol.atomselect('segid {} and resid {}'.format(d.segid2, d.resid2))]))
      # Rename the CYS to CYX if there is a disulfide bond
      mol.set('resname', 'CYX', sel='segid {} and resid {}'.format(d.segid1, d.resid1))
      mol.set('resname', 'CYX', sel='segid {} and resid {}'.format(d.segid2, d.resid2))
      f.write('bond mol.{}.SG mol.{}.SG\n'.format(uqres1, uqres2))
  \<close>
  \<open>mol.resid[0]\<close> of an empty structure raises \<open>IndexError\<close>; \<open>int()\<close> of an array
  that does not hold exactly one element raises \<open>TypeError\<close>.
\<close>

record dpair =
  segid1 :: string
  resid1 :: int
  segid2 :: string
  resid2 :: int

definition uqres :: "Molecule \<Rightarrow> int list \<Rightarrow> string \<Rightarrow> int \<Rightarrow> error + int" where
  "uqres mol uqseqid seg res =
     (case unique (select (atomselect mol (And (Segid seg) (Resid res))) uqseqid) of
        [u] \<Rightarrow> Inr u
      | _ \<Rightarrow> Inl TypeError)"

definition set_cyx :: "Molecule \<Rightarrow> string \<Rightarrow> int \<Rightarrow> Molecule" where
  "set_cyx mol seg res =
     mol\<lparr>resname := mask_set (atomselect mol (And (Segid seg) (Resid res))) ''CYX'' (resname mol)\<rparr>"

definition disu_bond :: "Molecule \<Rightarrow> dpair \<Rightarrow> error + (Molecule \<times> int \<times> int)" where
  "disu_bond mol d =
     (case resid mol of
        [] \<Rightarrow> Inl IndexError
      | r0 # _ \<Rightarrow>
          (let uqseqid = map (\<lambda>s. s + r0 - 1)
                           (sequenceID (zip (resid mol) (zip (insertion mol) (segid mol))))
           in case uqres mol uqseqid (segid1 d) (resid1 d) of
                Inl e \<Rightarrow> Inl e
              | Inr uqres1 \<Rightarrow>
                  (case uqres mol uqseqid (segid2 d) (resid2 d) of
                     Inl e \<Rightarrow> Inl e
                   | Inr uqres2 \<Rightarrow>
                       Inr (set_cyx (set_cyx mol (segid1 d) (resid1 d)) (segid2 d) (resid2 d),
                            uqres1, uqres2))))"

definition nl :: string where
  "nl = [CHR 0x0A]"

definition bond_line :: "int \<Rightarrow> int \<Rightarrow> string" where
  "bond_line uqres1 uqres2 =
     ''bond mol.'' @ str_int uqres1 @ ''.SG mol.'' @ str_int uqres2 @ ''.SG'' @ nl"

text \<open>
  The loop over the pairs: the structure is renamed in place and the bond lines are
  written one by one, so an error leaves the lines written so far.
\<close>

fun disu_loop :: "dpair list \<Rightarrow> Molecule \<Rightarrow> string list \<Rightarrow> error option \<times> Molecule \<times> string list" where
  "disu_loop [] mol written = (None, mol, written)"
| "disu_loop (d # ds) mol written =
     (case disu_bond mol d of
        Inl e \<Rightarrow> (Some e, mol, written)
      | Inr (mol', uqres1, uqres2) \<Rightarrow> disu_loop ds mol' (written @ [bond_line uqres1 uqres2]))"

text \<open>The same pair given the other way round.\<close>

definition swap_pair :: "dpair \<Rightarrow> dpair" where
  "swap_pair d = \<lparr>segid1 = segid2 d, resid1 = resid2 d, segid2 = segid1 d, resid2 = resid1 d\<rparr>"

definition two_cys :: Molecule where
  "two_cys =
     \<lparr>name = [''SG'', ''SG''], resname = [''CYS'', ''CYS''], resid = [1, 2],
      insertion = ['''', ''''], chain = [''A'', ''A''], segid = [''P'', ''P''],
      element = [''S'', ''S''], coords = [(0, 0, 0), (2, 0, 0)], beta = [0, 0], bonds = []\<rparr>"

definition cys_pair :: dpair where
  "cys_pair = \<lparr>segid1 = ''P'', resid1 = 1, segid2 = ''P'', resid2 = 2\<rparr>"

subsection \<open>The orchestrator\<close>

text \<open>
  The arguments of \<open>build\<close> that decide its control flow and its script. The output
  directory, the salt concentration, the ion species and the path of the executable are
  only handed to collaborators outside the core (the file system, the ion placement, the
  engine) and are not modelled.
\<close>

record opts =
  ff :: "string list option"
  topo :: "string list option"
  param :: "string list option"
  prefix :: string
  caps :: "capsdict option"
  ionize :: bool
  disulfide :: "dpair list option"
  execute :: bool

text \<open>
  What the engine leaves behind: the call itself fails, an expected output file is
  missing, an output file is empty, or there is a built structure to read.
\<close>

datatype tleap_outcome = CallFailed | NoFile | EmptyFile | Output Molecule

text \<open>
  The collaborators outside the core, as functions of what the orchestrator hands them:
  whether the executable is found, the rows of the rule file of the installation, the
  distinct segment ids of the protein atoms, the two segment checks (\<open>_missingSegID\<close>,
  \<open>_checkMixedSegment\<close>), whether the structure file is there after writing it, the
  disulfide detector, the engine run on the script and the written structure, and the ion
  placement (from the working structure and the built one).
\<close>

record env =
  tleap_found :: bool
  rule_file :: "csvrow list option"
  segsProt :: "Molecule \<Rightarrow> string list"
  check_segments :: "Molecule \<Rightarrow> error option"
  pdb_written :: "Molecule \<Rightarrow> bool"
  detectDisulfideBonds :: "Molecule \<Rightarrow> dpair list"
  run_tleap :: "string list \<Rightarrow> Molecule \<Rightarrow> tleap_outcome"
  ionizePlace :: "Molecule \<Rightarrow> Molecule \<Rightarrow> Molecule"

text \<open>
  The state outside the function: the Molecule objects (a reference is an index into
  \<open>heap\<close>; copying or creating a Molecule appends an object), what has been written to
  \<open>tleap.in\<close> (one entry per \<open>f.write\<close>), the structures written to \<open>input.pdb\<close> and
  \<open>structure.pdb\<close>, the log, and the record of every entry into \<open>build\<close> with its
  \<open>caps\<close> and \<open>ionize\<close> arguments.
\<close>

record world =
  heap :: "Molecule list"
  tleap_in :: "string list"
  input_pdb :: "Molecule option"
  structure_pdb :: "Molecule option"
  logged :: "logmsg list"
  passes :: "(capsdict option \<times> bool) list"

text \<open>
  The effects on that state: a log message, a new Molecule object, an assignment to a
  Molecule object, the purge of stale results (\<open>_cleanOutDir\<close>), opening \<open>tleap.in\<close> for
  writing, a write to it, and writing \<open>input.pdb\<close> and \<open>structure.pdb\<close>.
\<close>

definition say :: "logmsg list \<Rightarrow> world \<Rightarrow> world" where
  "say msgs w = w\<lparr>logged := logged w @ msgs\<rparr>"

definition alloc :: "Molecule \<Rightarrow> world \<Rightarrow> world" where
  "alloc m w = w\<lparr>heap := heap w @ [m]\<rparr>"

definition store :: "nat \<Rightarrow> Molecule \<Rightarrow> world \<Rightarrow> world" where
  "store n m w = w\<lparr>heap := (heap w)[n := m]\<rparr>"

definition purge :: "world \<Rightarrow> world" where
  "purge w = w\<lparr>structure_pdb := None\<rparr>"

definition open_script :: "world \<Rightarrow> world" where
  "open_script w = w\<lparr>tleap_in := []\<rparr>"

definition f_write :: "string list \<Rightarrow> world \<Rightarrow> world" where
  "f_write chunks w = w\<lparr>tleap_in := tleap_in w @ chunks\<rparr>"

definition write_input :: "Molecule \<Rightarrow> world \<Rightarrow> world" where
  "write_input m w = w\<lparr>input_pdb := Some m\<rparr>"

definition write_structure :: "Molecule \<Rightarrow> world \<Rightarrow> world" where
  "write_structure m w = w\<lparr>structure_pdb := Some m\<rparr>"

definition enter :: "opts \<Rightarrow> world \<Rightarrow> world" where
  "enter cfg w = w\<lparr>passes := passes w @ [(caps cfg, ionize cfg)]\<rparr>"

text \<open>How one pass through the body of \<open>build\<close> ends.\<close>

datatype outcome = Failed error | Done nat | Rebuild nat opts

text \<open>\<open>os.path.basename\<close>: what follows the last slash.\<close>

definition basename :: "string \<Rightarrow> string" where
  "basename p = rev (takeWhile (\<lambda>c. c \<noteq> CHR ''/'') (rev p))"

text \<open>
  Entry (lines 99 to 101):
  \<^verbatim>\<open>
  mol = mol.copy()
  mol.bonds = np.empty((0, 2), dtype=np.uint32)
  \<close>
  The copy is a new object; the bond list of the new object is emptied.
\<close>

definition build_entry :: "world \<Rightarrow> nat \<Rightarrow> world \<times> nat" where
  "build_entry w a =
     (let n = length (heap w)
      in (store n ((heap w ! a)\<lparr>bonds := []\<rparr>) (alloc (heap w ! a) w), n))"

text \<open>
  Lines 102 to 123: the executable is looked up, stale results are purged from the output
  directory, the defaults are filled in, the segments are checked, the lipids are converted
  (a new Molecule object) and the caps are applied to that object in place.
  \<^verbatim>\<open>
  if shutil.which(tleap) is None:
      raise NameError('Could not find executable: `' + tleap + '` in the PATH. Cannot build for AMBER.')
  ...
  _cleanOutDir(outdir)
  ...
  if caps is None:
      caps = _defaultCaps(mol)
  _missingSegID(mol)
  _checkMixedSegment(mol)
  logger.info('Converting CHARMM membranes to AMBER.')
  mol = _charmmLipid2Amber(mol)
  _applyCaps(mol, caps)
  \<close>
  When the cap applier raises, the new object is left as the conversion made it.
\<close>

definition caps_of :: "env \<Rightarrow> opts \<Rightarrow> Molecule \<Rightarrow> capsdict" where
  "caps_of e cfg mol = (case caps cfg of None \<Rightarrow> defaultCaps (segsProt e mol) | Some c \<Rightarrow> c)"

definition converting :: "logmsg list" where
  "converting = [Info ''Converting CHARMM membranes to AMBER.'']"

definition build_convert :: "env \<Rightarrow> opts \<Rightarrow> world \<Rightarrow> nat \<Rightarrow> (error + nat) \<times> world" where
  "build_convert e cfg w n =
     (if \<not> tleap_found e
      then (Inl (NameError ''Could not find executable tleap in the PATH. Cannot build for AMBER.''), w)
      else (case check_segments e (heap w ! n) of
              Some err \<Rightarrow> (Inl err, purge w)
            | None \<Rightarrow>
                (case readcsvdict (rule_file e) of
                   Inl err \<Rightarrow> (Inl err, say converting (purge w))
                 | Inr resdict \<Rightarrow>
                     (case charmmLipid2Amber resdict (heap w ! n) of
                        Inl err \<Rightarrow> (Inl err, say converting (purge w))
                      | Inr m \<Rightarrow>
                          (case applyCaps m (caps_of e cfg (heap w ! n)) of
                             Inl err \<Rightarrow> (Inl err, alloc m (say converting (purge w)))
                           | Inr (mc, lg) \<Rightarrow>
                               (Inr (length (heap w)),
                                say lg (store (length (heap w)) mc
                                          (alloc m (say converting (purge w))))))))))"

text \<open>
  Lines 125 to 160: the head of the script and the structure file.
\<close>

definition script_head :: "opts \<Rightarrow> string list" where
  "script_head cfg =
     (let ff' = (case ff cfg of None \<Rightarrow> [''leaprc.lipid14'', ''leaprc.ff14SB'', ''leaprc.gaff'']
                 | Some fs \<Rightarrow> fs);
          topo' = (case topo cfg of None \<Rightarrow> [] | Some ts \<Rightarrow> ts);
          param' = (case param cfg of None \<Rightarrow> [] | Some ps \<Rightarrow> ps)
      in [''# tleap file generated by amber.build'' @ nl] @
         map (\<lambda>force. ''source '' @ force @ nl) ff' @ [nl] @
         [''# Loading ions and TIP3P water parameters'' @ nl,
          ''loadamberparams frcmod.ionsjc_tip3p'' @ nl @ nl] @
         [''# Loading parameter files'' @ nl] @
         map (\<lambda>p. ''loadamberparams '' @ basename p @ nl) param' @ [nl] @
         [''# Loading prepi topologies'' @ nl] @
         map (\<lambda>t. ''loadamberprep '' @ basename t @ nl) topo' @ [nl])"

definition script_load :: "string list" where
  "script_load = [''# Loading the system'' @ nl, ''mol = loadpdb input.pdb'' @ nl @ nl]"

definition script_tail :: "opts \<Rightarrow> string list" where
  "script_tail cfg =
     [''# Writing out the results'' @ nl,
      ''saveamberparm mol '' @ prefix cfg @ ''.prmtop '' @ prefix cfg @ ''.crd'' @ nl,
      ''quit'']"

text \<open>
  Lines 162 to 183: the disulfide bonds and the tail of the script.
  \<^verbatim>\<open>
  if disulfide is None and not ionize:
      logger.info('Detecting disulfide bonds.')
      disulfide = detectDisulfideBonds(mol)
  if not ionize and len(disulfide) != 0:  # Only make disu bonds after ionizing!
      f.write('# Adding disulfide bonds\n')
      for d in disulfide: ...
      f.write('\n')
  f.write('# Writing out the results\n')
  f.write('saveamberparm mol ' + prefix + '.prmtop ' + prefix + '.crd\n')
  f.write('quit')
  \<close>
  \<open>disulfide_of\<close> is the value of \<open>disulfide\<close> after the detection, which the rebuild
  passes on; \<open>detecting\<close> is what the detection logs.
\<close>

definition disulfide_of :: "env \<Rightarrow> opts \<Rightarrow> Molecule \<Rightarrow> dpair list option" where
  "disulfide_of e cfg mol =
     (if disulfide cfg = None \<and> \<not> ionize cfg then Some (detectDisulfideBonds e mol)
      else disulfide cfg)"

definition detecting :: "opts \<Rightarrow> logmsg list" where
  "detecting cfg =
     (if disulfide cfg = None \<and> \<not> ionize cfg then [Info ''Detecting disulfide bonds.''] else [])"

definition pairs_of :: "dpair list option \<Rightarrow> dpair list" where
  "pairs_of d = (case d of None \<Rightarrow> [] | Some ds \<Rightarrow> ds)"

definition build_script :: "env \<Rightarrow> opts \<Rightarrow> world \<Rightarrow> nat \<Rightarrow> (error + dpair list option) \<times> world" where
  "build_script e cfg w n2 =
     (if \<not> pdb_written e (heap w ! n2)
      then (Inl (NameError ''Could not write a PDB file out of the given Molecule.''),
            write_input (heap w ! n2)
              (say [Info ''Writing PDB file for input to tleap.'']
                 (f_write (script_head cfg) (open_script w))))
      else if \<not> ionize cfg \<and> length (pairs_of (disulfide_of e cfg (heap w ! n2))) \<noteq> 0
      then (case disu_loop (pairs_of (disulfide_of e cfg (heap w ! n2))) (heap w ! n2) [] of
              (Some err, mol', bond_lines) \<Rightarrow>
                (Inl err,
                 store n2 mol'
                   (f_write ([''# Adding disulfide bonds'' @ nl] @ bond_lines)
                      (say (detecting cfg)
                         (f_write script_load
                            (write_input (heap w ! n2)
                               (say [Info ''Writing PDB file for input to tleap.'']
                                  (f_write (script_head cfg) (open_script w))))))))
            | (None, mol', bond_lines) \<Rightarrow>
                (Inr (disulfide_of e cfg (heap w ! n2)),
                 f_write (script_tail cfg)
                   (store n2 mol'
                      (f_write ([''# Adding disulfide bonds'' @ nl] @ bond_lines @ [nl])
                         (say (detecting cfg)
                            (f_write script_load
                               (write_input (heap w ! n2)
                                  (say [Info ''Writing PDB file for input to tleap.'']
                                     (f_write (script_head cfg) (open_script w))))))))))
      else (Inr (disulfide_of e cfg (heap w ! n2)),
            f_write (script_tail cfg)
              (say (detecting cfg)
                 (f_write script_load
                    (write_input (heap w ! n2)
                       (say [Info ''Writing PDB file for input to tleap.'']
                          (f_write (script_head cfg) (open_script w))))))))"

text \<open>
  Lines 185 to 224: the engine is run, its output is read into a new Molecule, and with
  ionization the ions are placed into a new Molecule and the whole build is done again on
  it, with an empty cap configuration and without ionization.
  \<^verbatim>\<open>
  molbuilt = None
  if execute:
      ...
      if ionize:
          ...
          newmol = ionizePlace(mol, anion, cation, anionatom, cationatom, nanion, ncation)
          # Redo the whole build but now with ions included
          return build(newmol, ff=ff, topo=topo, param=param, prefix=prefix, outdir=outdir, caps={}, ionize=False,
                       execute=execute, saltconc=saltconc, disulfide=disulfide, tleap=tleap)
  molbuilt.write(path.join(outdir, 'structure.pdb'))
  return molbuilt
  \<close>
  Without \<open>execute\<close> the last lines call \<open>write\<close> on \<open>None\<close>.
\<close>

definition rebuild_opts :: "opts \<Rightarrow> dpair list option \<Rightarrow> opts" where
  "rebuild_opts cfg disulfide' =
     \<lparr>ff = Some (case ff cfg of None \<Rightarrow> [''leaprc.lipid14'', ''leaprc.ff14SB'', ''leaprc.gaff'']
                  | Some fs \<Rightarrow> fs),
      topo = Some (case topo cfg of None \<Rightarrow> [] | Some ts \<Rightarrow> ts),
      param = Some (case param cfg of None \<Rightarrow> [] | Some ps \<Rightarrow> ps),
      prefix = prefix cfg, caps = Some [], ionize = False, disulfide = disulfide',
      execute = execute cfg\<rparr>"

definition pdb_of :: "world \<Rightarrow> nat \<Rightarrow> Molecule" where
  "pdb_of w n2 = (case input_pdb w of None \<Rightarrow> heap w ! n2 | Some p \<Rightarrow> p)"

definition build_execute :: "env \<Rightarrow> opts \<Rightarrow> world \<Rightarrow> nat \<Rightarrow> dpair list option \<Rightarrow> outcome \<times> world" where
  "build_execute e cfg w n2 disulfide' =
     (if execute cfg
      then (case run_tleap e (tleap_in w) (pdb_of w n2) of
              CallFailed \<Rightarrow>
                (Failed (NameError ''tleap failed at execution''),
                 say [Info ''Starting the build.''] w)
            | NoFile \<Rightarrow>
                (Failed OSError, say [Info ''Starting the build.'', Info ''Finished building.''] w)
            | EmptyFile \<Rightarrow>
                (Failed (NameError ''No structure pdb/prmtop file was generated.''),
                 say [Info ''Starting the build.'', Info ''Finished building.''] w)
            | Output molbuilt \<Rightarrow>
                (if ionize cfg
                 then (Rebuild (Suc (length (heap w))) (rebuild_opts cfg disulfide'),
                       alloc (ionizePlace e (heap w ! n2) molbuilt)
                         (alloc molbuilt
                            (say [Info ''Starting the build.'', Info ''Finished building.''] w)))
                 else (Done (length (heap w)),
                       write_structure molbuilt
                         (alloc molbuilt
                            (say [Info ''Starting the build.'', Info ''Finished building.''] w)))))
      else (Failed AttributeError, w))"

text \<open>
  One pass through the body of \<open>build\<close>. The entry is recorded with its \<open>caps\<close> and
  \<open>ionize\<close> arguments. An argument that is no Molecule object has no \<open>copy\<close> method.
\<close>

definition build_pass :: "env \<Rightarrow> opts \<Rightarrow> world \<Rightarrow> nat \<Rightarrow> outcome \<times> world" where
  "build_pass e cfg w a =
     (if length (heap w) \<le> a then (Failed AttributeError, enter cfg w)
      else (case build_entry (enter cfg w) a of
              (w2, n) \<Rightarrow>
                (case build_convert e cfg w2 n of
                   (Inl err, w6) \<Rightarrow> (Failed err, w6)
                 | (Inr n2, w6) \<Rightarrow>
                     (case build_script e cfg w6 n2 of
                        (Inl err, w9) \<Rightarrow> (Failed err, w9)
                      | (Inr disulfide', w9) \<Rightarrow> build_execute e cfg w9 n2 disulfide'))))"

lemma build_pass_rebuild:
  "build_pass e cfg w a = (Rebuild newmol cfg', w') \<Longrightarrow> ionize cfg \<and> \<not> ionize cfg'"
  by (auto simp: build_pass_def build_execute_def rebuild_opts_def
           split: if_splits prod.splits sum.splits tleap_outcome.splits)

text \<open>
  \<open>build\<close> itself: the recursive call of the source is the only way back into the body.
\<close>

function build :: "env \<Rightarrow> opts \<Rightarrow> world \<Rightarrow> nat \<Rightarrow> (error + nat) \<times> world" where
  "build e cfg w a =
     (case build_pass e cfg w a of
        (Failed err, w') \<Rightarrow> (Inl err, w')
      | (Done molbuilt, w') \<Rightarrow> (Inr molbuilt, w')
      | (Rebuild newmol cfg', w') \<Rightarrow> build e cfg' w' newmol)"
  by pat_completeness auto
termination
  by (relation "measure (\<lambda>(e, cfg, w, a). if ionize cfg then 1 else 0)")
     (auto dest: build_pass_rebuild [OF sym])

declare build.simps [simp del]

subsection \<open>Notions used to state the properties of the orchestrator\<close>

text \<open>The state with the Molecule object at one reference replaced.\<close>

definition put :: "nat \<Rightarrow> Molecule \<Rightarrow> world \<Rightarrow> world" where
  "put a x w = w\<lparr>heap := (heap w)[a := x]\<rparr>"

subsection \<open>A small run of the orchestrator\<close>

text \<open>
  Collaborators that find the executable, read the two-row rule file, see one protein
  segment P, accept the segments, write the structure file, detect no disulfide pair, let
  the engine return the structure it was given, and place no ion.
\<close>

definition ex_env :: env where
  "ex_env =
     \<lparr>tleap_found = True, rule_file = Some ex_rows, segsProt = (\<lambda>m. [''P'']),
      check_segments = (\<lambda>m. None), pdb_written = (\<lambda>m. True),
      detectDisulfideBonds = (\<lambda>m. []), run_tleap = (\<lambda>script m. Output m),
      ionizePlace = (\<lambda>m built. m)\<rparr>"

definition ex_opts :: opts where
  "ex_opts =
     \<lparr>ff = None, topo = None, param = None, prefix = ''structure'', caps = None,
      ionize = True, disulfide = None, execute = True\<rparr>"

definition ex_world :: world where
  "ex_world =
     \<lparr>heap = [gly\<lparr>bonds := [(0, 1), (0, 4)]\<rparr>], tleap_in = [], input_pdb = None,
      structure_pdb = None, logged = [], passes = []\<rparr>"

section \<open>Properties of the remapper\<close>

subsection \<open>Array operations\<close>

lemma length_mask_set [simp]:
  "length (mask_set msk v xs) = min (length msk) (length xs)"
  by (simp add: mask_set_def)

lemma nth_mask_set:
  "i < length msk \<Longrightarrow> i < length xs \<Longrightarrow> mask_set msk v xs ! i = (if msk ! i then v else xs ! i)"
  by (simp add: mask_set_def)

lemma np_any_nth: "\<not> np_any msk \<Longrightarrow> i < length msk \<Longrightarrow> \<not> msk ! i"
  unfolding np_any_def list_ex_iff by (metis nth_mem)

lemma mask_set_all_False:
  "length msk = length xs \<Longrightarrow> \<not> np_any msk \<Longrightarrow> mask_set msk v xs = xs"
  by (rule nth_equalityI) (simp_all add: nth_mask_set np_any_nth)

lemma length_mask_assign [simp]: "length (mask_assign msk vs xs) = length xs"
  by (induction msk vs xs rule: mask_assign.induct) (simp_all split: list.splits)

lemma mset_argsort: "mset (argsort ks) = mset [0..<length ks]"
  by (simp add: argsort_def)

lemma length_argsort [simp]: "length (argsort ks) = length ks"
  by (simp add: argsort_def)

lemma set_argsort [simp]: "set (argsort ks) = {0..<length ks}"
  by (simp add: argsort_def)

lemma distinct_argsort [simp]: "distinct (argsort ks)"
  by (simp add: argsort_def)

lemma sort_argsort: "sort (argsort ks) = [0..<length ks]"
  by (rule properties_for_sort) (simp_all add: mset_argsort)

lemma sorted_argsort: "sorted (map (\<lambda>i. ks ! i) (argsort ks))"
  by (simp add: argsort_def)

lemma argsort_upt: "argsort (map int [0..<n]) = [0..<n]"
proof -
  have "sorted_wrt (\<lambda>x y. map int [0..<n] ! x \<le> map int [0..<n] ! y) [0..<n]"
    by (simp add: sorted_wrt_iff_nth_less)
  then have "sort_key (\<lambda>i. map int [0..<n] ! i) [0..<n] = [0..<n]"
    by (intro sort_key_id_if_sorted) (simp add: sorted_map)
  then show ?thesis by (simp add: argsort_def)
qed

lemma length_slice_add [simp]: "length (slice_add b f xs) = length xs"
  by (simp add: slice_add_def)

lemma length_offset_loop [simp]: "length (offset_loop bs ks) = length ks"
  by (induction bs ks rule: offset_loop.induct) simp_all

lemma first_last_mem: "b \<in> set xs \<Longrightarrow> \<exists>k l. first_last xs b = Inr (k, l)"
proof -
  assume "b \<in> set xs"
  then obtain i where "i < length xs" "xs ! i = b" by (auto simp: in_set_conv_nth)
  then have "i \<in> set (np_where (map (\<lambda>x. x = b) xs))" by (simp add: np_where_def)
  then show ?thesis by (cases "np_where (map (\<lambda>x. x = b) xs)") (auto simp: first_last_def)
qed

lemma residue_bounds_ok: "set bs \<subseteq> set xs \<Longrightarrow> \<exists>r. residue_bounds xs bs = Inr r"
proof (induction bs)
  case Nil
  show ?case by simp
next
  case (Cons b bs)
  then obtain r where r: "residue_bounds xs bs = Inr r" by auto
  from Cons.prems obtain k l where "first_last xs b = Inr (k, l)"
    using first_last_mem [of b xs] by auto
  with r show ?case by simp
qed

lemma set_select: "set (select msk xs) \<subseteq> set xs"
  by (auto simp: select_def dest: set_zip_rightD)

lemma select_all_False [simp]: "select (replicate n False) xs = []"
  by (auto simp: select_def filter_empty_conv dest: set_zip_leftD)

lemma np_where_all_False: "\<not> np_any msk \<Longrightarrow> np_where msk = []"
  by (simp add: np_where_def filter_empty_conv np_any_nth)

lemma set_unique [simp]: "set (unique xs) = set xs"
  by (simp add: unique_def)

lemma pick_upt: "pick xs [0..<length xs] = xs"
  by (simp add: pick_def map_nth)

lemma idx_ok_bound: "length xs = n \<Longrightarrow> set ord \<subseteq> {0..<n} \<Longrightarrow> idx_ok xs ord"
  by (auto simp: idx_ok_def list_all_iff)

lemma pick_nonempty: "length xs = n \<Longrightarrow> length ord = n \<Longrightarrow> pick xs ord = map (\<lambda>i. xs ! i) ord"
  by (cases "xs = []") (simp_all add: pick_def)

subsection \<open>The renaming loop keeps the shape of its state\<close>

lemma apply_rule_ok:
  "st_ok n st \<Longrightarrow> length molresidx = n \<Longrightarrow> length names = n \<Longrightarrow>
   st_ok n (apply_rule molresidx names atom rule st)"
  by (simp add: st_ok_def apply_rule_def Let_def)

lemma atom_loop_ok:
  "st_ok n st \<Longrightarrow> length molresidx = n \<Longrightarrow> length names = n \<Longrightarrow>
   st_ok n (atom_loop molresidx names am st)"
  by (induction am arbitrary: st) (auto simp: apply_rule_ok)

lemma res_loop_ok: "st_ok n st \<Longrightarrow> st_ok n (res_loop rd st)"
proof (induction rd arbitrary: st)
  case Nil
  then show ?case by simp
next
  case (Cons p rd)
  obtain res am where p: "p = (res, am)" by (cases p)
  have len: "length (map (\<lambda>r. r = res) (resname (rmol st))) = n" "length (name (rmol st)) = n"
    using Cons.prems by (simp_all add: st_ok_def)
  show ?case
    using Cons.IH Cons.prems atom_loop_ok [OF Cons.prems len]
    by (simp add: p Let_def)
qed

lemma same_rest_refl: "same_rest a a"
  by (simp add: same_rest_def)

lemma same_rest_trans: "same_rest a b \<Longrightarrow> same_rest b c \<Longrightarrow> same_rest a c"
  by (simp add: same_rest_def)

lemma apply_rule_rest: "same_rest (rmol st) (rmol (apply_rule molresidx names atom rule st))"
  by (simp add: same_rest_def apply_rule_def Let_def)

lemma atom_loop_rest: "same_rest (rmol st) (rmol (atom_loop molresidx names am st))"
proof (induction am arbitrary: st)
  case Nil
  show ?case by (simp add: same_rest_refl)
next
  case (Cons p am)
  obtain a r where p: "p = (a, r)" by (cases p)
  show ?case
    using same_rest_trans [OF apply_rule_rest Cons.IH] by (simp add: p)
qed

lemma res_loop_rest: "same_rest (rmol st) (rmol (res_loop rd st))"
proof (induction rd arbitrary: st)
  case Nil
  show ?case by (simp add: same_rest_refl)
next
  case (Cons p rd)
  obtain res am where p: "p = (res, am)" by (cases p)
  show ?case
    using Cons.IH same_rest_trans [OF atom_loop_rest Cons.IH]
    by (simp add: p Let_def)
qed

lemma init_state_ok: "wf_mol mol \<Longrightarrow> st_ok (numAtoms mol) (init_state mol)"
  by (simp add: st_ok_def init_state_def wf_mol_def numAtoms_def Let_def)

lemma renamed_rest:
  "same_rest (mol\<lparr>beta := map real_of_int (sequenceID (resid mol))\<rparr>) (renamed resdict mol)"
  using res_loop_rest [of "init_state mol" resdict]
  by (simp add: renamed_def init_state_def Let_def)

lemma renamed_lengths:
  "wf_mol mol \<Longrightarrow> length (name (renamed resdict mol)) = numAtoms mol \<and>
     length (resname (renamed resdict mol)) = numAtoms mol"
  using res_loop_ok [OF init_state_ok, of mol resdict]
  by (simp add: renamed_def st_ok_def)

subsection \<open>The permutation\<close>

lemma reorderMol_perm:
  assumes "wf_mol m" "length idx = numAtoms m" "set idx \<subseteq> {0..<numAtoms m}"
  shows "reorderMol m idx = Inr (permuted m idx)"
proof -
  note w = assms(1) [unfolded wf_mol_def]
  have ok: "idx_ok (name m) idx" "idx_ok (resname m) idx" "idx_ok (resid m) idx"
    "idx_ok (insertion m) idx" "idx_ok (chain m) idx" "idx_ok (segid m) idx"
    "idx_ok (element m) idx" "idx_ok (coords m) idx" "idx_ok (beta m) idx"
    using w assms(3) by (simp_all add: idx_ok_bound numAtoms_def)
  have pk: "pick (name m) idx = map (\<lambda>i. name m ! i) idx"
    "pick (resname m) idx = map (\<lambda>i. resname m ! i) idx"
    "pick (resid m) idx = map (\<lambda>i. resid m ! i) idx"
    "pick (insertion m) idx = map (\<lambda>i. insertion m ! i) idx"
    "pick (chain m) idx = map (\<lambda>i. chain m ! i) idx"
    "pick (segid m) idx = map (\<lambda>i. segid m ! i) idx"
    "pick (element m) idx = map (\<lambda>i. element m ! i) idx"
    "pick (coords m) idx = map (\<lambda>i. coords m ! i) idx"
    "pick (beta m) idx = map (\<lambda>i. beta m ! i) idx"
    using w assms(2) by (simp_all add: pick_nonempty numAtoms_def)
  show ?thesis
    unfolding reorderMol_def permuted_def by (simp only: ok pk simp_thms if_True)
qed

lemma renamed_wf:
  assumes "wf_mol mol"
  shows "wf_mol ((renamed resdict mol)\<lparr>beta := beta mol\<rparr>)"
    and "numAtoms ((renamed resdict mol)\<lparr>beta := beta mol\<rparr>) = numAtoms mol"
  using assms renamed_lengths [OF assms, of resdict] renamed_rest [of mol resdict]
  by (simp_all add: wf_mol_def numAtoms_def same_rest_def)

lemma remap_shape:
  assumes wf: "wf_mol mol"
  shows "\<exists>bounds. 
     residue_bounds (beta (renamed resdict mol))
        (unique (select (begs (res_loop resdict (init_state mol))) (beta (renamed resdict mol))))
       = Inr bounds \<and>
     remap resdict mol =
       Inr (permuted ((renamed resdict mol)\<lparr>beta := beta mol\<rparr>)
              (argsort (offset_loop bounds (neworder (res_loop resdict (init_state mol))))),
            argsort (offset_loop bounds (neworder (res_loop resdict (init_state mol)))),
            begters (res_loop resdict (init_state mol)),
            finters (res_loop resdict (init_state mol)))"
proof -
  let ?st = "res_loop resdict (init_state mol)"
  obtain bounds where b: "residue_bounds (beta (renamed resdict mol))
        (unique (select (begs ?st) (beta (renamed resdict mol)))) = Inr bounds"
    using residue_bounds_ok [of "unique (select (begs ?st) (beta (renamed resdict mol)))"
        "beta (renamed resdict mol)"]
    by (auto simp: set_select)
  let ?idx = "argsort (offset_loop bounds (neworder ?st))"
  have len: "length (neworder ?st) = numAtoms mol"
    using res_loop_ok [OF init_state_ok [OF wf], of resdict] by (simp add: st_ok_def)
  have r: "reorderMol ((renamed resdict mol)\<lparr>beta := beta mol\<rparr>) ?idx
        = Inr (permuted ((renamed resdict mol)\<lparr>beta := beta mol\<rparr>) ?idx)"
    by (rule reorderMol_perm) (simp_all add: renamed_wf [OF wf] len)
  have "remap resdict mol = Inr (permuted ((renamed resdict mol)\<lparr>beta := beta mol\<rparr>) ?idx, ?idx,
            begters ?st, finters ?st)"
    using b r unfolding remap_def Let_def renamed_def by simp
  with b show ?thesis by blast
qed

text \<open>
  Claim C1. For every structure (with per-atom arrays of one length N) and every rule
  table, the remapper reaches the reordering, and the permutation it applies, the argsort
  of the order keys, is a bijection over the atom positions: sorted, it is the index range
  0..N-1. Every per-atom array of the reordered molecule is the corresponding array (the
  renamed names and residue names, the other fields as they came in, the restored scratch
  tag) indexed by that same permutation.
\<close>

theorem remap_permutation_bijective:
  assumes "wf_mol mol"
  shows "\<exists>m idx bt ft. remap resdict mol = Inr (m, idx, bt, ft) \<and>
           sort idx = [0..<numAtoms mol] \<and>
           name m = map (\<lambda>i. name (renamed resdict mol) ! i) idx \<and>
           resname m = map (\<lambda>i. resname (renamed resdict mol) ! i) idx \<and>
           resid m = map (\<lambda>i. resid mol ! i) idx \<and>
           insertion m = map (\<lambda>i. insertion mol ! i) idx \<and>
           chain m = map (\<lambda>i. chain mol ! i) idx \<and>
           segid m = map (\<lambda>i. segid mol ! i) idx \<and>
           element m = map (\<lambda>i. element mol ! i) idx \<and>
           coords m = map (\<lambda>i. coords mol ! i) idx \<and>
           beta m = map (\<lambda>i. beta mol ! i) idx"
proof -
  let ?st = "res_loop resdict (init_state mol)"
  obtain bounds where
    r: "remap resdict mol =
       Inr (permuted ((renamed resdict mol)\<lparr>beta := beta mol\<rparr>)
              (argsort (offset_loop bounds (neworder ?st))),
            argsort (offset_loop bounds (neworder ?st)), begters ?st, finters ?st)"
    using remap_shape [OF assms, of resdict] by blast
  have len: "length (neworder ?st) = numAtoms mol"
    using res_loop_ok [OF init_state_ok [OF assms], of resdict] by (simp add: st_ok_def)
  have s: "sort (argsort (offset_loop bounds (neworder ?st))) = [0..<numAtoms mol]"
    by (simp add: sort_argsort len)
  show ?thesis
    using r s renamed_rest [of mol resdict]
    by (simp add: permuted_def same_rest_def)
qed

subsection \<open>The no-op law\<close>

lemma np_any_iff: "np_any msk \<longleftrightarrow> (\<exists>i<length msk. msk ! i)"
  unfolding np_any_def list_ex_iff by (metis in_set_conv_nth)

lemma apply_rule_noop:
  assumes "st_ok n st" "length molresidx = n" "length names = n"
    and "\<not> np_any (map2 (\<lambda>r n. r \<and> n = atom) molresidx names)"
  shows "apply_rule molresidx names atom rule st = st"
proof -
  let ?msk = "map2 (\<lambda>r n. r \<and> n = atom) molresidx names"
  have l: "length ?msk = n" using assms(2,3) by simp
  note ok = assms(1) [unfolded st_ok_def]
  have "mask_set ?msk (replaceresname rule) (resname (rmol st)) = resname (rmol st)"
    "mask_set ?msk (replaceatom rule) (name (rmol st)) = name (rmol st)"
    "mask_set ?msk (order rule) (neworder st) = neworder st"
    "mask_set ?msk True (begs st) = begs st"
    "mask_set ?msk True (fins st) = fins st"
    "mask_set ?msk True (begters st) = begters st"
    "mask_set ?msk True (finters st) = finters st"
    using ok l assms(4) by (simp_all add: mask_set_all_False)
  then show ?thesis
    unfolding apply_rule_def Let_def by simp
qed

lemma atom_loop_noop:
  assumes "st_ok n st" "length molresidx = n" "length names = n"
    and "\<forall>(atom, rule) \<in> set am. \<not> np_any (map2 (\<lambda>r n. r \<and> n = atom) molresidx names)"
  shows "atom_loop molresidx names am st = st"
  using assms(4)
proof (induction am)
  case Nil
  show ?case by simp
next
  case (Cons p am)
  obtain a r where p: "p = (a, r)" by (cases p)
  have "apply_rule molresidx names a r st = st"
    using Cons.prems by (intro apply_rule_noop [OF assms(1-3)]) (simp add: p)
  then show ?case using Cons by (simp add: p)
qed

lemma rule_keys_Cons:
  "set (rule_keys ((res, am) # rd)) = (\<lambda>(a, r). (res, a)) ` set am \<union> set (rule_keys rd)"
  by (auto simp: rule_keys_def)

lemma res_loop_noop:
  assumes "st_ok n st"
    and "\<forall>i<n. (resname (rmol st) ! i, name (rmol st) ! i) \<notin> set (rule_keys rd)"
  shows "res_loop rd st = st"
  using assms(2)
proof (induction rd)
  case Nil
  show ?case by simp
next
  case (Cons p rd)
  obtain res am where p: "p = (res, am)" by (cases p)
  note ok = assms(1) [unfolded st_ok_def]
  have no: "\<forall>(atom, rule) \<in> set am.
      \<not> np_any (map2 (\<lambda>r n. r \<and> n = atom) (map (\<lambda>r. r = res) (resname (rmol st))) (name (rmol st)))"
  proof (clarify)
    fix atom rule
    assume e: "(atom, rule) \<in> set am"
      and a: "np_any (map2 (\<lambda>r n. r \<and> n = atom) (map (\<lambda>r. r = res) (resname (rmol st))) (name (rmol st)))"
    from a obtain i where i: "i < n" "resname (rmol st) ! i = res" "name (rmol st) ! i = atom"
      using ok by (auto simp: np_any_iff)
    have "(res, atom) \<in> set (rule_keys (p # rd))"
      using e unfolding p rule_keys_Cons by force
    with Cons.prems i show False by blast
  qed
  have "atom_loop (map (\<lambda>r. r = res) (resname (rmol st))) (name (rmol st)) am st = st"
    using ok by (intro atom_loop_noop [OF assms(1) _ _ no]) simp_all
  moreover have "res_loop rd st = st"
    using Cons.prems by (intro Cons.IH) (simp add: p rule_keys_Cons)
  ultimately show ?case by (simp add: p Let_def)
qed

lemma permuted_id: "wf_mol m \<Longrightarrow> permuted m [0..<numAtoms m] = m"
proof -
  assume "wf_mol m"
  then have "map (\<lambda>i. name m ! i) [0..<numAtoms m] = name m"
    "map (\<lambda>i. resname m ! i) [0..<numAtoms m] = resname m"
    "map (\<lambda>i. resid m ! i) [0..<numAtoms m] = resid m"
    "map (\<lambda>i. insertion m ! i) [0..<numAtoms m] = insertion m"
    "map (\<lambda>i. chain m ! i) [0..<numAtoms m] = chain m"
    "map (\<lambda>i. segid m ! i) [0..<numAtoms m] = segid m"
    "map (\<lambda>i. element m ! i) [0..<numAtoms m] = element m"
    "map (\<lambda>i. coords m ! i) [0..<numAtoms m] = coords m"
    "map (\<lambda>i. beta m ! i) [0..<numAtoms m] = beta m"
    unfolding wf_mol_def numAtoms_def by (metis map_nth)+
  then show ?thesis by (simp add: permuted_def)
qed

text \<open>
  Claim C3. No-op law: when no atom's (residue name, atom name) pair has an entry in the
  rule table, the remapper returns the structure it was given, with every field array and
  the atom order unchanged.
\<close>

theorem remap_noop:
  assumes wf: "wf_mol mol"
    and no: "\<forall>i<numAtoms mol. (resname mol ! i, name mol ! i) \<notin> set (rule_keys resdict)"
  shows "charmmLipid2Amber resdict mol = Inr mol"
proof -
  let ?n = "numAtoms mol"
  let ?st = "res_loop resdict (init_state mol)"
  have st: "?st = init_state mol"
    using no by (intro res_loop_noop [OF init_state_ok [OF wf]]) (simp add: init_state_def Let_def)
  have ren: "(renamed resdict mol)\<lparr>beta := beta mol\<rparr> = mol"
    by (simp add: renamed_def st) (simp add: init_state_def Let_def)
  have flds: "neworder ?st = map int [0..<?n]" "begs ?st = replicate ?n False"
    "begters ?st = replicate ?n False" "finters ?st = replicate ?n False"
    unfolding st by (simp_all add: init_state_def Let_def)
  obtain bounds where
    b: "residue_bounds (beta (renamed resdict mol))
        (unique (select (begs ?st) (beta (renamed resdict mol)))) = Inr bounds"
    and r: "remap resdict mol =
       Inr (permuted ((renamed resdict mol)\<lparr>beta := beta mol\<rparr>)
              (argsort (offset_loop bounds (neworder ?st))),
            argsort (offset_loop bounds (neworder ?st)), begters ?st, finters ?st)"
    using remap_shape [OF wf, of resdict] by blast
  have "bounds = []"
    using b unfolding flds by (simp add: unique_def)
  then have idx: "argsort (offset_loop bounds (map int [0..<?n])) = [0..<?n]"
    by (simp add: argsort_upt)
  have r': "remap resdict mol = Inr (mol, [0..<?n], replicate ?n False, replicate ?n False)"
    using r by (simp only: flds idx ren permuted_id [OF wf])
  have "np_where (map (\<lambda>i. replicate ?n False ! i) [0..<?n]) = []"
    by (simp add: np_where_def filter_empty_conv)
  then have "resegment mol [0..<?n] (replicate ?n False) (replicate ?n False) = Inr mol"
    by (simp add: resegment_def Let_def)
  then show ?thesis by (simp add: charmmLipid2Amber_def r')
qed

subsection \<open>The resegmenter keeps the other fields; the scratch tag\<close>

lemma label_run_frame:
  "wf_mol m \<Longrightarrow>
     wf_mol (label_run i b f m) \<and> numAtoms (label_run i b f m) = numAtoms m \<and>
     name (label_run i b f m) = name m \<and> resname (label_run i b f m) = resname m \<and>
     insertion (label_run i b f m) = insertion m \<and> chain (label_run i b f m) = chain m \<and>
     element (label_run i b f m) = element m \<and> coords (label_run i b f m) = coords m \<and>
     beta (label_run i b f m) = beta m \<and> bonds (label_run i b f m) = bonds m"
  by (simp add: label_run_def Let_def wf_mol_def numAtoms_def slice_mask_def)

lemma reseg_loop_frame:
  "reseg_loop i bs fs m = Inr m' \<Longrightarrow> wf_mol m \<Longrightarrow>
     wf_mol m' \<and> numAtoms m' = numAtoms m \<and> name m' = name m \<and> resname m' = resname m \<and>
     insertion m' = insertion m \<and> chain m' = chain m \<and> element m' = element m \<and>
     coords m' = coords m \<and> beta m' = beta m \<and> bonds m' = bonds m"
proof (induction i bs fs m rule: reseg_loop.induct)
  case (1 i fs mol)
  then show ?case by simp
next
  case (2 i b bs fs mol)
  from "2.prems"(1) have ok: "\<not> length fs \<le> i"
    and r: "reseg_loop (i + 1) bs fs (label_run i b (fs ! i) mol) = Inr m'"
    by (simp_all split: if_splits)
  from "2.IH" [OF ok r] label_run_frame [OF "2.prems"(2), of i b "fs ! i"]
  show ?case by simp
qed

text \<open>
  Claim C10. The scratch tag array holds the sequence ids only while the order keys are
  computed: it is restored before the permutation is applied, so in the returned structure
  the scratch tag is the input's scratch tag indexed by the permutation, as the other
  per-atom fields that the resegmenter does not rewrite are, and the atom count is that of
  the input.
\<close>

theorem remap_restores_beta:
  assumes wf: "wf_mol mol" and res: "charmmLipid2Amber resdict mol = Inr mol'"
  shows "\<exists>m idx bt ft. remap resdict mol = Inr (m, idx, bt, ft) \<and>
           beta mol' = map (\<lambda>i. beta mol ! i) idx \<and>
           name mol' = map (\<lambda>i. name (renamed resdict mol) ! i) idx \<and>
           resname mol' = map (\<lambda>i. resname (renamed resdict mol) ! i) idx \<and>
           insertion mol' = map (\<lambda>i. insertion mol ! i) idx \<and>
           chain mol' = map (\<lambda>i. chain mol ! i) idx \<and>
           element mol' = map (\<lambda>i. element mol ! i) idx \<and>
           coords mol' = map (\<lambda>i. coords mol ! i) idx \<and>
           numAtoms mol' = numAtoms mol \<and> length (beta mol') = numAtoms mol"
proof -
  let ?st = "res_loop resdict (init_state mol)"
  let ?r = "(renamed resdict mol)\<lparr>beta := beta mol\<rparr>"
  obtain bounds where
    r: "remap resdict mol =
       Inr (permuted ?r (argsort (offset_loop bounds (neworder ?st))),
            argsort (offset_loop bounds (neworder ?st)), begters ?st, finters ?st)"
    using remap_shape [OF wf, of resdict] by blast
  let ?idx = "argsort (offset_loop bounds (neworder ?st))"
  have len: "length ?idx = numAtoms mol"
    using res_loop_ok [OF init_state_ok [OF wf], of resdict] by (simp add: st_ok_def)
  have wfp: "wf_mol (permuted ?r ?idx)" "numAtoms (permuted ?r ?idx) = numAtoms mol"
    using len by (simp_all add: wf_mol_def numAtoms_def permuted_def)
  from res r have "resegment (permuted ?r ?idx) ?idx (begters ?st) (finters ?st) = Inr mol'"
    by (simp add: charmmLipid2Amber_def)
  then have "reseg_loop 0 (np_where (map (\<lambda>i. begters ?st ! i) ?idx))
      (np_where (map (\<lambda>i. finters ?st ! i) ?idx)) (permuted ?r ?idx) = Inr mol'"
    by (simp add: resegment_def Let_def split: if_splits)
  from reseg_loop_frame [OF this wfp(1)]
  have fr: "wf_mol mol'" "numAtoms mol' = numAtoms mol" "name mol' = name (permuted ?r ?idx)"
    "resname mol' = resname (permuted ?r ?idx)" "insertion mol' = insertion (permuted ?r ?idx)"
    "chain mol' = chain (permuted ?r ?idx)" "element mol' = element (permuted ?r ?idx)"
    "coords mol' = coords (permuted ?r ?idx)" "beta mol' = beta (permuted ?r ?idx)"
    using wfp(2) by simp_all
  have lb: "length (beta mol') = numAtoms mol"
    using fr(1,2) by (simp add: wf_mol_def)
  show ?thesis
    using r fr lb renamed_rest [of mol resdict]
    by (simp add: permuted_def same_rest_def)
qed

lemma ex_wf: "wf_mol ex_mol"
  by (simp add: wf_mol_def ex_mol_def numAtoms_def)

lemma ex_result:
  "charmmLipid2Amber ex_rules ex_mol =
     Inr \<lparr>name = [''B1'', ''B2''], resname = [''XM'', ''XM''], resid = [1, 1],
          insertion = ['''', ''''], chain = [''A'', ''A''], segid = [''S'', ''S''],
          element = [''C'', ''C''], coords = [(1, 1, 1), (0, 0, 0)], beta = [3 / 2, 1 / 2],
          bonds = []\<rparr>"
  by code_simp

lemma ex_remap:
  "remap ex_rules ex_mol =
     Inr (\<lparr>name = [''B1'', ''B2''], resname = [''XM'', ''XM''], resid = [1, 1],
          insertion = ['''', ''''], chain = [''A'', ''A''], segid = [''S'', ''S''],
          element = [''C'', ''C''], coords = [(1, 1, 1), (0, 0, 0)], beta = [3 / 2, 1 / 2],
          bonds = []\<rparr>, [1, 0], [False, False], [True, False])"
  by code_simp

theorem remap_restores_beta_witness:
  "wf_mol ex_mol \<and>
   (\<exists>mol'. charmmLipid2Amber ex_rules ex_mol = Inr mol' \<and> beta mol' = [3 / 2, 1 / 2] \<and>
      beta mol' = map (\<lambda>i. beta ex_mol ! i) [1, 0] \<and> numAtoms mol' = numAtoms ex_mol)"
  using remap_restores_beta [OF ex_wf ex_result] ex_wf
  by (simp add: ex_result ex_remap) (simp add: ex_mol_def numAtoms_def)

theorem remap_permutation_bijective_witness:
  "wf_mol ex_mol \<and>
   (\<exists>m bt ft. remap ex_rules ex_mol = Inr (m, [1, 0], bt, ft) \<and> sort [1, 0] = [0..<numAtoms ex_mol] \<and>
      name m = [''B1'', ''B2''] \<and> coords m = map (\<lambda>i. coords ex_mol ! i) [1, 0])"
  using remap_permutation_bijective [OF ex_wf, of ex_rules] ex_wf
  by (simp add: ex_remap)

theorem remap_noop_witness:
  "wf_mol ex_mol \<and> charmmLipid2Amber other_rules ex_mol = Inr ex_mol"
proof -
  have "\<forall>i<numAtoms ex_mol. (resname ex_mol ! i, name ex_mol ! i) \<notin> set (rule_keys other_rules)"
    by (simp add: numAtoms_def ex_mol_def rule_keys_def other_rules_def less_Suc_eq)
  from remap_noop [OF ex_wf this] ex_wf show ?thesis by simp
qed

section \<open>Properties of the resegmenter\<close>

lemma reseg_loop_success:
  "i + length bs \<le> length fs \<Longrightarrow> \<exists>m'. reseg_loop i bs fs m = Inr m'"
  by (induction bs arbitrary: i m) simp_all

lemma reseg_loop_short:
  "length fs < i + length bs \<Longrightarrow> i \<le> length fs \<Longrightarrow> reseg_loop i bs fs m = Inl IndexError"
  by (induction bs arbitrary: i m) simp_all

lemma label_run_segid:
  assumes "wf_mol m" "p < numAtoms m"
  shows "segid (label_run i b f m) ! p = (if b \<le> p \<and> p \<le> f then ''L'' @ str_nat (i + 1) else segid m ! p)"
  using assms
  by (simp add: label_run_def Let_def wf_mol_def numAtoms_def slice_mask_def nth_mask_set less_Suc_eq_le)

lemma covers_Suc: "covers (b # bs) fs i (Suc k) p = covers bs fs (Suc i) k p"
  by (simp add: covers_def)

lemma covers_0: "covers (b # bs) fs i 0 p = (b \<le> p \<and> p \<le> fs ! i)"
  by (simp add: covers_def)

lemma reseg_loop_segid_aux:
  assumes "reseg_loop i bs fs m = Inr m'" "wf_mol m" "p < numAtoms m"
  shows "(\<forall>j<length bs. covers bs fs i j p \<and> (\<forall>k<length bs. j < k \<longrightarrow> \<not> covers bs fs i k p)
            \<longrightarrow> segid m' ! p = ''L'' @ str_nat (i + j + 1)) \<and>
         ((\<forall>j<length bs. \<not> covers bs fs i j p) \<longrightarrow> segid m' ! p = segid m ! p)"
  using assms
proof (induction bs arbitrary: i m)
  case Nil
  then show ?case by simp
next
  case (Cons b bs)
  let ?m1 = "label_run i b (fs ! i) m"
  from Cons.prems(1) have r: "reseg_loop (Suc i) bs fs ?m1 = Inr m'"
    by (simp split: if_splits)
  have wf1: "wf_mol ?m1" and n1: "p < numAtoms ?m1"
    using label_run_frame [OF Cons.prems(2), of i b "fs ! i"] Cons.prems(3) by simp_all
  from Cons.IH [OF r wf1 n1]
  have IH1: "\<And>j. j < length bs \<Longrightarrow> covers bs fs (Suc i) j p \<Longrightarrow>
        (\<forall>k<length bs. j < k \<longrightarrow> \<not> covers bs fs (Suc i) k p) \<Longrightarrow>
        segid m' ! p = ''L'' @ str_nat (Suc i + j + 1)"
    and IH2: "(\<forall>j<length bs. \<not> covers bs fs (Suc i) j p) \<Longrightarrow> segid m' ! p = segid ?m1 ! p"
    by blast+
  note s1 = label_run_segid [OF Cons.prems(2,3), of i b "fs ! i"]
  show ?case
  proof (intro conjI allI impI)
    fix j
    assume j: "j < length (b # bs)"
      and h: "covers (b # bs) fs i j p \<and> (\<forall>k<length (b # bs). j < k \<longrightarrow> \<not> covers (b # bs) fs i k p)"
    from h have hc: "covers (b # bs) fs i j p"
      and hk: "\<And>k. k < length (b # bs) \<Longrightarrow> j < k \<Longrightarrow> \<not> covers (b # bs) fs i k p"
      by blast+
    show "segid m' ! p = ''L'' @ str_nat (i + j + 1)"
    proof (cases j)
      case 0
      have "\<forall>k<length bs. \<not> covers bs fs (Suc i) k p"
      proof (intro allI impI)
        fix k assume "k < length bs"
        then have "\<not> covers (b # bs) fs i (Suc k) p"
          using hk [of "Suc k"] 0 by simp
        then show "\<not> covers bs fs (Suc i) k p" by (simp add: covers_Suc)
      qed
      then have "segid m' ! p = segid ?m1 ! p" by (rule IH2)
      moreover have "b \<le> p \<and> p \<le> fs ! i" using hc 0 by (simp add: covers_0)
      ultimately show ?thesis using s1 0 by simp
    next
      case (Suc j')
      have a: "j' < length bs" using j Suc by simp
      have b: "covers bs fs (Suc i) j' p" using hc Suc by (simp add: covers_Suc)
      have c: "\<forall>k<length bs. j' < k \<longrightarrow> \<not> covers bs fs (Suc i) k p"
      proof (intro allI impI)
        fix k assume "k < length bs" "j' < k"
        then have "\<not> covers (b # bs) fs i (Suc k) p"
          using hk [of "Suc k"] Suc by simp
        then show "\<not> covers bs fs (Suc i) k p" by (simp add: covers_Suc)
      qed
      have "segid m' ! p = ''L'' @ str_nat (Suc i + j' + 1)"
        by (rule IH1 [OF a b c])
      then show ?thesis using Suc by simp
    qed
  next
    assume h: "\<forall>j<length (b # bs). \<not> covers (b # bs) fs i j p"
    have "\<forall>k<length bs. \<not> covers bs fs (Suc i) k p"
    proof (intro allI impI)
      fix k assume "k < length bs"
      then have "\<not> covers (b # bs) fs i (Suc k) p"
        using h by simp
      then show "\<not> covers bs fs (Suc i) k p" by (simp add: covers_Suc)
    qed
    then have "segid m' ! p = segid ?m1 ! p" by (rule IH2)
    moreover have "\<not> covers (b # bs) fs i 0 p" using h by simp
    then have "\<not> (b \<le> p \<and> p \<le> fs ! i)" by (simp add: covers_0)
    ultimately show "segid m' ! p = segid m ! p" using s1 by simp
  qed
qed

lemma length_filter_index: "length (filter (\<lambda>p. xs ! p) [0..<length xs]) = length (filter id xs)"
proof -
  have "{i. i < length xs \<and> xs ! ([0..<length xs] ! i)} = {i. i < length xs \<and> xs ! i}"
    by auto
  then have "length (filter (\<lambda>p. xs ! p) [0..<length xs]) = card {i. i < length xs \<and> xs ! i}"
    by (simp add: length_filter_conv_card)
  also have "\<dots> = length (filter id xs)"
    by (simp add: length_filter_conv_card)
  finally show ?thesis .
qed

lemma length_np_where: "length (np_where msk) = length (filter id msk)"
  by (simp add: np_where_def length_filter_index)

lemma length_filter_mset_eq:
  "mset xs = mset ys \<Longrightarrow> length (filter P xs) = length (filter P ys)"
  by (metis mset_filter size_mset)

lemma count_markers_perm:
  assumes "mset idx = mset [0..<length bt]"
  shows "length (np_where (map (\<lambda>i. bt ! i) idx)) = length (filter id bt)"
proof -
  have "mset (map (\<lambda>i. bt ! i) idx) = mset (map (\<lambda>i. bt ! i) [0..<length bt])"
    using assms by (metis mset_map)
  then have "length (filter id (map (\<lambda>i. bt ! i) idx)) = length (filter id (map (\<lambda>i. bt ! i) [0..<length bt]))"
    by (rule length_filter_mset_eq)
  then show ?thesis
    by (simp only: length_np_where map_nth)
qed

lemma remap_result:
  assumes wf: "wf_mol mol" and rm: "remap resdict mol = Inr (m, idx, bt, ft)"
  shows "wf_mol m" "numAtoms m = numAtoms mol" "mset idx = mset [0..<numAtoms mol]"
    "bt = begters (res_loop resdict (init_state mol))"
    "ft = finters (res_loop resdict (init_state mol))"
    "length bt = numAtoms mol" "length ft = numAtoms mol"
proof -
  let ?st = "res_loop resdict (init_state mol)"
  let ?r = "(renamed resdict mol)\<lparr>beta := beta mol\<rparr>"
  obtain bounds where
    r: "remap resdict mol =
       Inr (permuted ?r (argsort (offset_loop bounds (neworder ?st))),
            argsort (offset_loop bounds (neworder ?st)), begters ?st, finters ?st)"
    using remap_shape [OF wf, of resdict] by blast
  let ?idx = "argsort (offset_loop bounds (neworder ?st))"
  note ok = res_loop_ok [OF init_state_ok [OF wf], of resdict, unfolded st_ok_def]
  have len: "length ?idx = numAtoms mol" using ok by simp
  from r rm have eq: "m = permuted ?r ?idx" "idx = ?idx" "bt = begters ?st" "ft = finters ?st"
    by simp_all
  show "wf_mol m" "numAtoms m = numAtoms mol"
    unfolding eq using len by (simp_all add: wf_mol_def numAtoms_def permuted_def)
  show "mset idx = mset [0..<numAtoms mol]"
    unfolding eq using ok by (simp add: mset_argsort)
  show "bt = begters ?st" "ft = finters ?st" by (rule eq)+
  show "length bt = numAtoms mol" "length ft = numAtoms mol"
    unfolding eq using ok by simp_all
qed

text \<open>
  Claim C6, as amended. Let the remapper succeed on a structure, and let B and F be the
  positions of the begin and end markers after the reordering. If there are more than 999
  begin markers (so also for exactly 1000), the resegmenter fails with the error for an
  exhausted label space and assigns nothing. If there are at most 999 and every begin
  marker has an end marker of the same index (at least as many end markers as begin
  markers), it succeeds: every position gets the label \<open>L\<close> followed by the 1-based number
  of the last run that covers it, and a position that no run covers keeps its segment id.
\<close>

theorem resegment_capacity:
  assumes wf: "wf_mol mol" and rm: "remap resdict mol = Inr (m, idx, bt, ft)"
    and B: "B = np_where (map (\<lambda>i. bt ! i) idx)" and F: "F = np_where (map (\<lambda>i. ft ! i) idx)"
  shows "(999 < length B \<longrightarrow>
           charmmLipid2Amber resdict mol =
             Inl (NameError ''More than 999 lipids. Cannot define separate segments for all of them.'')) \<and>
         (length B \<le> 999 \<and> length B \<le> length F \<longrightarrow>
           (\<exists>mol'. charmmLipid2Amber resdict mol = Inr mol' \<and>
              (\<forall>p<numAtoms mol.
                 (\<forall>i<length B. in_run B F i p \<and> (\<forall>k<length B. i < k \<longrightarrow> \<not> in_run B F k p)
                     \<longrightarrow> segid mol' ! p = ''L'' @ str_nat (i + 1)) \<and>
                 ((\<forall>i<length B. \<not> in_run B F i p) \<longrightarrow> segid mol' ! p = segid m ! p))))"
proof (intro conjI impI)
  assume "999 < length B"
  then show "charmmLipid2Amber resdict mol =
      Inl (NameError ''More than 999 lipids. Cannot define separate segments for all of them.'')"
    by (simp add: charmmLipid2Amber_def rm resegment_def Let_def B)
next
  assume a: "length B \<le> 999 \<and> length B \<le> length F"
  have c: "charmmLipid2Amber resdict mol = reseg_loop 0 B F m"
    using a by (simp add: charmmLipid2Amber_def rm resegment_def Let_def B F)
  obtain mol' where m': "reseg_loop 0 B F m = Inr mol'"
    using reseg_loop_success [of 0 B F m] a by auto
  note res = remap_result [OF wf rm]
  have "\<forall>p<numAtoms mol.
                 (\<forall>i<length B. in_run B F i p \<and> (\<forall>k<length B. i < k \<longrightarrow> \<not> in_run B F k p)
                     \<longrightarrow> segid mol' ! p = ''L'' @ str_nat (i + 1)) \<and>
                 ((\<forall>i<length B. \<not> in_run B F i p) \<longrightarrow> segid mol' ! p = segid m ! p)"
  proof (intro allI impI)
    fix p assume "p < numAtoms mol"
    then have p: "p < numAtoms m" by (simp add: res(2))
    from reseg_loop_segid_aux [OF m' res(1) p]
    show "(\<forall>i<length B. in_run B F i p \<and> (\<forall>k<length B. i < k \<longrightarrow> \<not> in_run B F k p)
                     \<longrightarrow> segid mol' ! p = ''L'' @ str_nat (i + 1)) \<and>
                 ((\<forall>i<length B. \<not> in_run B F i p) \<longrightarrow> segid mol' ! p = segid m ! p)"
      by (simp add: covers_def in_run_def)
  qed
  with c m' show "\<exists>mol'. charmmLipid2Amber resdict mol = Inr mol' \<and>
              (\<forall>p<numAtoms mol.
                 (\<forall>i<length B. in_run B F i p \<and> (\<forall>k<length B. i < k \<longrightarrow> \<not> in_run B F k p)
                     \<longrightarrow> segid mol' ! p = ''L'' @ str_nat (i + 1)) \<and>
                 ((\<forall>i<length B. \<not> in_run B F i p) \<longrightarrow> segid mol' ! p = segid m ! p))"
    by simp
qed

lemma open_lipid_wf: "wf_mol open_lipid"
  by (simp add: wf_mol_def open_lipid_def numAtoms_def)

lemma open_lipid_remap:
  "remap lipid_rules open_lipid =
     Inr (\<lparr>name = [''B1''], resname = [''XM''], resid = [1], insertion = [''''], chain = [''L''],
            segid = [''M''], element = [''C''], coords = [(0, 0, 0)], beta = [0], bonds = []\<rparr>,
          [0], [True], [False])"
  by code_simp

text \<open>
  The claim as stated promises success for every structure with at most 999 groups. A
  lipid that lacks its last atom has one begin marker and no end marker: the loop reads
  \<open>finters[0]\<close> and raises \<open>IndexError\<close>.
\<close>

theorem resegment_capacity_counterexample:
  "wf_mol open_lipid \<and>
   remap lipid_rules open_lipid =
     Inr (\<lparr>name = [''B1''], resname = [''XM''], resid = [1], insertion = [''''], chain = [''L''],
            segid = [''M''], element = [''C''], coords = [(0, 0, 0)], beta = [0], bonds = []\<rparr>,
          [0], [True], [False]) \<and>
   length (np_where (map (\<lambda>i. [True] ! i) [0])) = 1 \<and>
   charmmLipid2Amber lipid_rules open_lipid = Inl IndexError"
proof -
  have "charmmLipid2Amber lipid_rules open_lipid = Inl IndexError" by code_simp
  moreover have "length (np_where (map (\<lambda>i. [True] ! i) [0])) = 1" by code_simp
  ultimately show ?thesis using open_lipid_wf open_lipid_remap by simp
qed

lemma length_lipid_names: "length (concat (replicate n [a, b])) = 2 * n"
  by (induction n) simp_all

lemma length_lipid_resid: "length (concat (map (\<lambda>k. [f k, f k]) ks)) = 2 * length ks"
  by (induction ks) simp_all

lemma lipids_wf: "wf_mol (lipids n)"
  by (simp add: wf_mol_def lipids_def numAtoms_def length_lipid_names length_lipid_resid)

lemma mask_set_True_False: "length msk = k \<Longrightarrow> mask_set msk True (replicate k False) = msk"
  by (rule nth_equalityI) (simp_all add: nth_mask_set)

lemma map2_replicate_True:
  "length xs = k \<Longrightarrow> map2 (\<lambda>r a. r \<and> P a) (replicate k True) xs = map P xs"
  by (rule nth_equalityI) simp_all

lemma lipids_begters:
  "begters (res_loop lipid_rules (init_state (lipids n))) = map (\<lambda>a. a = ''A1'') (name (lipids n))"
proof -
  let ?st = "init_state (lipids n)"
  let ?names = "concat (replicate n [''A1'', ''A2''])"
  have nm: "name (rmol ?st) = ?names" "resname (rmol ?st) = replicate (2 * n) ''X''"
    "begters ?st = replicate (2 * n) False"
    by (simp_all add: init_state_def lipids_def Let_def numAtoms_def length_lipid_names)
  have msk: "map (\<lambda>r. r = ''X'') (resname (rmol ?st)) = replicate (2 * n) True"
    by (simp add: nm)
  show ?thesis
  proof (cases "np_any (replicate (2 * n) True)")
    case False
    then have "n = 0" by (cases n) (simp_all add: np_any_def)
    then show ?thesis
      by (simp add: lipid_rules_def Let_def lipids_def np_any_def init_state_def numAtoms_def)
  next
    case True
    have l: "length ?names = 2 * n" by (rule length_lipid_names)
    have "begters (res_loop lipid_rules ?st) =
        mask_set (map2 (\<lambda>r a. r \<and> a = ''A1'') (replicate (2 * n) True) ?names) True (replicate (2 * n) False)"
      using True by (simp add: lipid_rules_def Let_def msk nm apply_rule_def)
    also have "\<dots> = map (\<lambda>a. a = ''A1'') ?names"
      by (simp add: map2_replicate_True [OF l] mask_set_True_False l)
    finally show ?thesis by (simp add: lipids_def)
  qed
qed

lemma lipids_count_aux:
  "length (filter (\<lambda>a. a = ''A1'') (concat (replicate n [''A1'', ''A2'']))) = n"
  by (induction n) simp_all

lemma lipids_count: "length (filter id (map (\<lambda>a. a = ''A1'') (concat (replicate n [''A1'', ''A2''])))) = n"
  using lipids_count_aux [of n] by (simp add: filter_map comp_def)

lemma lipids_markers:
  assumes "remap lipid_rules (lipids n) = Inr (m, idx, bt, ft)"
  shows "length (np_where (map (\<lambda>i. bt ! i) idx)) = n"
proof -
  note res = remap_result [OF lipids_wf assms]
  have "mset idx = mset [0..<length bt]" using res(3,6) by simp
  then have "length (np_where (map (\<lambda>i. bt ! i) idx)) = length (filter id bt)"
    by (rule count_markers_perm)
  also have "\<dots> = n"
    unfolding res(4) lipids_begters by (simp add: lipids_def lipids_count_aux)
  finally show ?thesis .
qed

lemma two_lipids:
  "charmmLipid2Amber lipid_rules (lipids 2) =
     Inr \<lparr>name = [''B1'', ''B2'', ''B1'', ''B2''], resname = [''XM'', ''XM'', ''XM'', ''XM''],
          resid = [0, 0, 0, 0], insertion = ['''', '''', '''', ''''],
          chain = [''L'', ''L'', ''L'', ''L''], segid = [''L1'', ''L1'', ''L2'', ''L2''],
          element = [''C'', ''C'', ''C'', ''C''],
          coords = [(0, 0, 0), (0, 0, 0), (0, 0, 0), (0, 0, 0)], beta = [0, 0, 0, 0], bonds = []\<rparr>"
  by code_simp

theorem resegment_capacity_witness:
  "wf_mol (lipids 1000) \<and>
   charmmLipid2Amber lipid_rules (lipids 1000) =
     Inl (NameError ''More than 999 lipids. Cannot define separate segments for all of them.'') \<and>
   wf_mol (lipids 2) \<and>
   (\<exists>mol'. charmmLipid2Amber lipid_rules (lipids 2) = Inr mol' \<and>
      segid mol' = [''L1'', ''L1'', ''L2'', ''L2''])"
proof -
  obtain m idx bt ft where r: "remap lipid_rules (lipids 1000) = Inr (m, idx, bt, ft)"
    using remap_shape [OF lipids_wf, of lipid_rules 1000] by blast
  have "999 < length (np_where (map (\<lambda>i. bt ! i) idx))"
    by (simp add: lipids_markers [OF r])
  with resegment_capacity [OF lipids_wf r refl refl]
  have big: "charmmLipid2Amber lipid_rules (lipids 1000) =
     Inl (NameError ''More than 999 lipids. Cannot define separate segments for all of them.'')"
    by blast
  show ?thesis
    using big lipids_wf by (simp add: two_lipids)
qed

section \<open>The order of the matched atoms of a residue\<close>

lemma apply_rule_view:
  assumes "st_ok n st" "length molresidx = n" "length names = n" "i < n"
  shows "atom_view (apply_rule molresidx names atom rule st) i =
           (if molresidx ! i \<and> names ! i = atom
            then (replaceresname rule, replaceatom rule, order rule) else atom_view st i)"
  using assms
  by (simp add: atom_view_def apply_rule_def Let_def st_ok_def nth_mask_set)

lemma atom_loop_view_miss:
  assumes "st_ok n st" "length molresidx = n" "length names = n" "i < n"
    and "\<not> molresidx ! i \<or> names ! i \<notin> fst ` set am"
  shows "atom_view (atom_loop molresidx names am st) i = atom_view st i"
  using assms(1,5)
proof (induction am arbitrary: st)
  case Nil
  show ?case by simp
next
  case (Cons p am)
  obtain a r where p: "p = (a, r)" by (cases p)
  have ok1: "st_ok n (apply_rule molresidx names a r st)"
    by (rule apply_rule_ok [OF Cons.prems(1) assms(2,3)])
  have "atom_view (apply_rule molresidx names a r st) i = atom_view st i"
    using Cons.prems(2) by (auto simp add: apply_rule_view [OF Cons.prems(1) assms(2-4)] p)
  moreover have "atom_view (atom_loop molresidx names am (apply_rule molresidx names a r st)) i
      = atom_view (apply_rule molresidx names a r st) i"
    using Cons.prems(2) by (intro Cons.IH [OF ok1]) auto
  ultimately show ?case by (simp add: p)
qed

lemma atom_loop_view_hit:
  assumes "st_ok n st" "length molresidx = n" "length names = n" "i < n"
    and "molresidx ! i" "distinct (map fst am)" "map_of am (names ! i) = Some rule"
  shows "atom_view (atom_loop molresidx names am st) i =
           (replaceresname rule, replaceatom rule, order rule)"
  using assms(1,6,7)
proof (induction am arbitrary: st)
  case Nil
  then show ?case by simp
next
  case (Cons p am)
  obtain a r where p: "p = (a, r)" by (cases p)
  have ok1: "st_ok n (apply_rule molresidx names a r st)"
    by (rule apply_rule_ok [OF Cons.prems(1) assms(2,3)])
  show ?case
  proof (cases "a = names ! i")
    case True
    then have r: "r = rule" using Cons.prems(3) by (simp add: p)
    have "names ! i \<notin> fst ` set am" using Cons.prems(2) True by (simp add: p)
    then have "atom_view (atom_loop molresidx names am (apply_rule molresidx names a r st)) i
        = atom_view (apply_rule molresidx names a r st) i"
      by (intro atom_loop_view_miss [OF ok1 assms(2-4)]) simp
    also have "\<dots> = (replaceresname rule, replaceatom rule, order rule)"
      using True assms(5) by (simp add: apply_rule_view [OF Cons.prems(1) assms(2-4)] r)
    finally show ?thesis by (simp add: p)
  next
    case False
    then have "map_of am (names ! i) = Some rule" using Cons.prems(3) by (simp add: p)
    moreover have "distinct (map fst am)" using Cons.prems(2) by simp
    ultimately show ?thesis using Cons.IH [OF ok1] by (simp add: p)
  qed
qed

lemma res_step_ok:
  assumes "st_ok n st"
  shows "st_ok n (atom_loop (map (\<lambda>r. r = res) (resname (rmol st))) (name (rmol st)) am st)"
  using assms by (intro atom_loop_ok) (simp_all add: st_ok_def)

lemma res_loop_view_untouched:
  assumes "st_ok n st" "i < n" "fst (atom_view st i) \<notin> fst ` set rd"
  shows "atom_view (res_loop rd st) i = atom_view st i"
  using assms(1,3)
proof (induction rd arbitrary: st)
  case Nil
  show ?case by simp
next
  case (Cons p rd)
  obtain res am where p: "p = (res, am)" by (cases p)
  let ?msk = "map (\<lambda>r. r = res) (resname (rmol st))"
  let ?st1 = "atom_loop ?msk (name (rmol st)) am st"
  note ok = Cons.prems(1) [unfolded st_ok_def]
  have ne: "resname (rmol st) ! i \<noteq> res"
    using Cons.prems(2) by (auto simp: p atom_view_def)
  have miss: "\<not> ?msk ! i" using ok assms(2) ne by simp
  have v1: "atom_view ?st1 i = atom_view st i"
    using ok miss by (intro atom_loop_view_miss [OF Cons.prems(1) _ _ assms(2)]) simp_all
  have ok1: "st_ok n ?st1" by (rule res_step_ok [OF Cons.prems(1)])
  have r0: "atom_view (res_loop rd st) i = atom_view st i"
    using Cons.prems(2) by (intro Cons.IH [OF Cons.prems(1)]) (simp add: p)
  have r1: "atom_view (res_loop rd ?st1) i = atom_view ?st1 i"
    using Cons.prems(2) v1 by (intro Cons.IH [OF ok1]) (simp add: p)
  show ?case using r0 r1 v1 by (simp add: p Let_def)
qed

lemma res_loop_view_hit:
  assumes "st_ok n st" "i < n" "wf_table rd"
    and "rule_for rd (fst (atom_view st i)) (fst (snd (atom_view st i))) = Some rule"
    and "replaceresname rule \<notin> fst ` set rd"
  shows "atom_view (res_loop rd st) i = (replaceresname rule, replaceatom rule, order rule)"
  using assms(1,3,4,5)
proof (induction rd arbitrary: st)
  case Nil
  then show ?case by (simp add: rule_for_def)
next
  case (Cons p rd)
  obtain res am where p: "p = (res, am)" by (cases p)
  let ?msk = "map (\<lambda>r. r = res) (resname (rmol st))"
  let ?st1 = "atom_loop ?msk (name (rmol st)) am st"
  note ok = Cons.prems(1) [unfolded st_ok_def]
  have ok1: "st_ok n ?st1" by (rule res_step_ok [OF Cons.prems(1)])
  have wf_rd: "wf_table rd" and dam: "distinct (map fst am)" and nres: "res \<notin> fst ` set rd"
    using Cons.prems(2) by (auto simp: wf_table_def p)
  have nrep: "replaceresname rule \<notin> fst ` set rd"
    using Cons.prems(4) by (simp add: p)
  show ?case
  proof (cases "resname (rmol st) ! i = res")
    case True
    have hit: "?msk ! i" using ok assms(2) True by simp
    then have any: "np_any ?msk"
      using ok assms(2) by (auto simp: np_any_iff)
    have look: "map_of am (name (rmol st) ! i) = Some rule"
      using Cons.prems(3) True by (simp add: rule_for_def p atom_view_def)
    have v1: "atom_view ?st1 i = (replaceresname rule, replaceatom rule, order rule)"
      using ok by (intro atom_loop_view_hit [OF Cons.prems(1) _ _ assms(2) hit dam look]) simp_all
    have "atom_view (res_loop rd ?st1) i = atom_view ?st1 i"
      using nrep by (intro res_loop_view_untouched [OF ok1 assms(2)]) (simp add: v1)
    with v1 any show ?thesis by (simp add: p Let_def)
  next
    case False
    have miss: "\<not> ?msk ! i" using ok assms(2) False by simp
    have v1: "atom_view ?st1 i = atom_view st i"
      using ok miss by (intro atom_loop_view_miss [OF Cons.prems(1) _ _ assms(2)]) simp_all
    have look: "rule_for rd (fst (atom_view st i)) (fst (snd (atom_view st i))) = Some rule"
      using Cons.prems(3) False by (simp add: rule_for_def p atom_view_def)
    have r0: "atom_view (res_loop rd st) i = (replaceresname rule, replaceatom rule, order rule)"
      by (rule Cons.IH [OF Cons.prems(1) wf_rd look nrep])
    have r1: "atom_view (res_loop rd ?st1) i = (replaceresname rule, replaceatom rule, order rule)"
      using look by (intro Cons.IH [OF ok1 wf_rd _ nrep]) (simp add: v1)
    show ?thesis using r0 r1 by (simp add: p Let_def)
  qed
qed

text \<open>Sequence ids never decrease along the atoms.\<close>

lemma seqid_from_sorted: "sorted (seqid_from c prev xs) \<and> (\<forall>y \<in> set (seqid_from c prev xs). c \<le> y)"
proof (induction xs arbitrary: c prev)
  case Nil
  show ?case by simp
next
  case (Cons x xs)
  from Cons [of "c + 1" x] Cons [of c x] show ?case by (auto simp: less_imp_le)
qed

lemma sorted_sequenceID: "sorted (sequenceID xs)"
  using seqid_from_sorted [of 0 _ "tl xs"]
  by (cases xs) (auto simp: sequenceID_def)

lemma length_seqid_from [simp]: "length (seqid_from c prev xs) = length xs"
  by (induction xs arbitrary: c prev) simp_all

lemma length_sequenceID [simp]: "length (sequenceID xs) = length xs"
  by (cases xs) (simp_all add: sequenceID_def)

lemma sorted_np_where: "sorted (np_where msk)"
  unfolding np_where_def by (rule sorted_wrt_filter) simp

lemma set_np_where: "set (np_where msk) = {k. k < length msk \<and> msk ! k}"
  by (auto simp: np_where_def)

lemma first_last_block:
  assumes fl: "first_last xs b = Inr (f, l)" and srt: "sorted xs" and k: "k < length xs"
  shows "(f \<le> k \<and> k \<le> l) = (xs ! k = b)"
proof -
  let ?w = "np_where (map (\<lambda>x. x = b) xs)"
  from fl have ne: "?w \<noteq> []" and f: "f = hd ?w" and l: "l = last ?w"
    by (auto simp: first_last_def split: list.splits)
  have fin: "f \<in> set ?w" and lin: "l \<in> set ?w" using ne f l by simp_all
  then have fb: "f < length xs" "xs ! f = b" and lb: "l < length xs" "xs ! l = b"
    by (auto simp: set_np_where)
  show ?thesis
  proof
    assume a: "f \<le> k \<and> k \<le> l"
    then have "xs ! f \<le> xs ! k" "xs ! k \<le> xs ! l"
      using srt k lb(1) by (simp_all add: sorted_nth_mono)
    then show "xs ! k = b" using fb(2) lb(2) by simp
  next
    assume "xs ! k = b"
    then have kin: "k \<in> set ?w" using k by (simp add: set_np_where)
    then obtain n where n: "n < length ?w" "?w ! n = k" by (auto simp: in_set_conv_nth)
    have "?w ! 0 \<le> ?w ! n" using n(1) by (intro sorted_nth_mono [OF sorted_np_where]) simp_all
    moreover have "?w ! n \<le> ?w ! (length ?w - 1)"
      using n(1) by (intro sorted_nth_mono [OF sorted_np_where]) simp_all
    ultimately show "f \<le> k \<and> k \<le> l"
      using ne n(2) by (simp add: f l hd_conv_nth last_conv_nth)
  qed
qed

lemma residue_bounds_blocks:
  assumes "residue_bounds xs bs = Inr bounds" "sorted xs"
    and "i < length xs" "j < length xs" "xs ! i = xs ! j"
  shows "list_all (\<lambda>(f, l). (f \<le> i \<and> i \<le> l) = (f \<le> j \<and> j \<le> l)) bounds"
  using assms(1)
proof (induction bs arbitrary: bounds)
  case Nil
  then show ?case by simp
next
  case (Cons b bs)
  from Cons.prems obtain f l rest where fl: "first_last xs b = Inr (f, l)"
    and rest: "residue_bounds xs bs = Inr rest" and bounds: "bounds = (f, l) # rest"
    by (auto split: sum.splits)
  have "(f \<le> i \<and> i \<le> l) = (f \<le> j \<and> j \<le> l)"
    using first_last_block [OF fl assms(2,3)] first_last_block [OF fl assms(2,4)] assms(5)
    by simp
  with Cons.IH [OF rest] show ?case by (simp add: bounds)
qed

lemma nth_slice_add:
  "k < length xs \<Longrightarrow>
     slice_add beg fin xs ! k = (if beg \<le> k \<and> k < fin then xs ! k + int beg else xs ! k)"
  by (simp add: slice_add_def)

lemma offset_loop_same:
  assumes "list_all (\<lambda>(f, l). (f \<le> i \<and> i \<le> l) = (f \<le> j \<and> j \<le> l)) bounds"
    and "i < length ks" "j < length ks"
  shows "offset_loop bounds ks ! i - ks ! i = offset_loop bounds ks ! j - ks ! j"
  using assms
proof (induction bounds arbitrary: ks)
  case Nil
  show ?case by simp
next
  case (Cons p bounds)
  obtain f l where p: "p = (f, l)" by (cases p)
  let ?ks = "slice_add f (l + 1) ks"
  have same: "(f \<le> i \<and> i \<le> l) = (f \<le> j \<and> j \<le> l)" and rest:
    "list_all (\<lambda>(f, l). (f \<le> i \<and> i \<le> l) = (f \<le> j \<and> j \<le> l)) bounds"
    using Cons.prems(1) by (simp_all add: p)
  have "offset_loop bounds ?ks ! i - ?ks ! i = offset_loop bounds ?ks ! j - ?ks ! j"
    using Cons.prems(2,3) by (intro Cons.IH [OF rest]) simp_all
  moreover have "?ks ! i - ks ! i = ?ks ! j - ks ! j"
    using same Cons.prems(2,3) by (auto simp: nth_slice_add less_Suc_eq_le)
  ultimately show ?case by (simp add: p)
qed

lemma argsort_position:
  assumes "i < length ks" "j < length ks" "ks ! i < ks ! j"
  shows "\<exists>p q. p < q \<and> q < length ks \<and> argsort ks ! p = i \<and> argsort ks ! q = j"
proof -
  let ?idx = "argsort ks"
  have "i \<in> set ?idx" "j \<in> set ?idx" using assms(1,2) by simp_all
  then obtain p q where p: "p < length ks" "?idx ! p = i" and q: "q < length ks" "?idx ! q = j"
    by (metis in_set_conv_nth length_argsort)
  have "\<not> q \<le> p"
  proof
    assume "q \<le> p"
    then have "map (\<lambda>i. ks ! i) ?idx ! q \<le> map (\<lambda>i. ks ! i) ?idx ! p"
      using p(1) by (intro sorted_nth_mono [OF sorted_argsort]) simp_all
    then show False using p q assms(3) by simp
  qed
  then have "p < q" by simp
  with p q show ?thesis by blast
qed

lemma sorted_map_real: "sorted xs \<Longrightarrow> sorted (map real_of_int xs)"
  by (simp add: sorted_iff_nth_mono)

lemma init_state_view:
  "wf_mol mol \<Longrightarrow> i < numAtoms mol \<Longrightarrow>
     atom_view (init_state mol) i = (resname mol ! i, name mol ! i, int i)"
  by (simp add: atom_view_def init_state_def Let_def)



section \<open>Properties of the rule table loader\<close>

lemma parse_row_ok: "row_ok line \<Longrightarrow> parse_row line = Inr (fst (fst (row_rule line)), snd (fst (row_rule line)), snd (row_rule line))"
  by (auto simp: row_ok_def parse_row_def row_rule_def Let_def)

lemma parse_row_fail:
  "\<not> row_ok line \<Longrightarrow> parse_row line = Inl IndexError \<or> parse_row line = Inl ValueError"
  by (auto simp: row_ok_def parse_row_def Let_def split: option.splits)

lemma rule_for_store:
  "rule_for (store_rule rd res atm rule) r a =
     (if r = res \<and> a = atm then Some rule else rule_for rd r a)"
  by (auto simp: rule_for_def store_rule_def update_conv' split: option.splits)

lemma list_all_update:
  "list_all P al \<Longrightarrow> P (k, v) \<Longrightarrow> list_all P (AList.update k v al)"
  by (induction al) auto

lemma store_rule_wf: "wf_table rd \<Longrightarrow> wf_table (store_rule rd res atm rule)"
proof -
  assume wf: "wf_table rd"
  let ?am = "case map_of rd res of None \<Rightarrow> [] | Some am \<Rightarrow> am"
  have "distinct (map fst ?am)"
  proof (cases "map_of rd res")
    case None
    then show ?thesis by simp
  next
    case (Some am)
    then have "(res, am) \<in> set rd" by (rule map_of_SomeD)
    then show ?thesis using wf Some by (auto simp: wf_table_def list_all_iff)
  qed
  then have "distinct (map fst (AList.update atm rule ?am))"
    by (rule distinct_update)
  then show ?thesis
    using wf unfolding wf_table_def store_rule_def
    by (simp add: distinct_update list_all_update)
qed

lemma load_rows_wf: "load_rows rows rd = Inr tbl \<Longrightarrow> wf_table rd \<Longrightarrow> wf_table tbl"
proof (induction rows arbitrary: rd)
  case Nil
  then show ?case by simp
next
  case (Cons line rows)
  from Cons.prems(1) obtain res atm rule where
    "load_rows rows (store_rule rd res atm rule) = Inr tbl"
    by (auto split: sum.splits)
  from Cons.IH [OF this store_rule_wf [OF Cons.prems(2)]] show ?case .
qed

lemma readcsvdict_wf: "readcsvdict f = Inr tbl \<Longrightarrow> wf_table tbl"
  by (cases f) (auto simp: readcsvdict_def wf_table_def dest: load_rows_wf)

lemma load_rows_ok:
  assumes "list_all row_ok rows"
  shows "\<exists>tbl. load_rows rows rd = Inr tbl \<and>
           (\<forall>r a. rule_for tbl r a =
              (case map_of (rev (map row_rule rows)) (r, a) of
                 Some rule \<Rightarrow> Some rule | None \<Rightarrow> rule_for rd r a))"
  using assms
proof (induction rows arbitrary: rd)
  case Nil
  show ?case by simp
next
  case (Cons line rows)
  let ?k = "fst (row_rule line)" and ?v = "snd (row_rule line)"
  let ?rd = "store_rule rd (fst ?k) (snd ?k) ?v"
  from Cons.prems have ok: "row_ok line" and rest: "list_all row_ok rows" by simp_all
  from Cons.IH [OF rest, of ?rd] obtain tbl where
    t: "load_rows rows ?rd = Inr tbl"
    and l: "\<And>r a. rule_for tbl r a =
              (case map_of (rev (map row_rule rows)) (r, a) of
                 Some rule \<Rightarrow> Some rule | None \<Rightarrow> rule_for ?rd r a)"
    by blast
  have "load_rows (line # rows) rd = Inr tbl"
    using t by (simp add: parse_row_ok [OF ok])
  moreover have "rule_for tbl r a =
              (case map_of (rev (map row_rule (line # rows))) (r, a) of
                 Some rule \<Rightarrow> Some rule | None \<Rightarrow> rule_for rd r a)" for r a
  proof -
    have kv: "row_rule line = (?k, ?v)" by simp
    show ?thesis
      unfolding l [of r a]
      by (cases "map_of (rev (map row_rule rows)) (r, a)")
         (auto simp: rule_for_store map_add_def prod_eq_iff split: option.splits)
  qed
  ultimately show ?case by blast
qed

lemma load_rows_fail:
  assumes "\<not> list_all row_ok rows"
  shows "load_rows rows rd = Inl IndexError \<or> load_rows rows rd = Inl ValueError"
  using assms
proof (induction rows arbitrary: rd)
  case Nil
  then show ?case by simp
next
  case (Cons line rows)
  show ?case
  proof (cases "row_ok line")
    case True
    with Cons.prems have "\<not> list_all row_ok rows" by simp
    from Cons.IH [OF this] show ?thesis by (simp add: parse_row_ok [OF True])
  next
    case False
    from parse_row_fail [OF this] show ?thesis by auto
  qed
qed

lemma rule_for_empty: "rule_for [] r a = None"
  by (simp add: rule_for_def)




section \<open>Properties of the cap applier\<close>

lemma applyCaps_loop_capped:
  assumes "list_all (\<lambda>c. capped mol (fst c)) capcfg"
  shows "applyCaps_loop capcfg mol lg =
     Inr (mol, lg @ map (\<lambda>c. Warning (''ACE and NME caps detected on segid '' @ fst c @ ''.'')) capcfg)"
  using assms
proof (induction capcfg arbitrary: lg)
  case Nil
  show ?case by simp
next
  case (Cons p capcfg)
  obtain seg ncap ccap where p: "p = (seg, ncap, ccap)" by (cases p)
  from Cons.prems have c: "capped mol seg" and rest: "list_all (\<lambda>c. capped mol (fst c)) capcfg"
    by (simp_all add: p)
  have "cap_segment seg ncap ccap mol lg =
      Inr (mol, lg @ [Warning (''ACE and NME caps detected on segid '' @ seg @ ''.'')])"
    using c by (simp add: cap_segment_def capped_def)
  then show ?case using Cons.IH [OF rest] by (simp add: p)
qed

text \<open>
  Claim C4, as amended. When residues named ACE and NME both occur already on every
  segment of the cap configuration, invoking the cap applier leaves the structure as it is,
  atom count and every field value, raises no error, and logs one warning per segment.
\<close>

theorem applyCaps_capped_noop:
  assumes "list_all (\<lambda>c. capped mol (fst c)) capcfg"
  shows "applyCaps mol capcfg =
     Inr (mol, map (\<lambda>c. Warning (''ACE and NME caps detected on segid '' @ fst c @ ''.'')) capcfg)"
  using applyCaps_loop_capped [OF assms, of "[]"] by (simp add: applyCaps_def)

theorem applyCaps_capped_noop_witness:
  "applyCaps gly [(''P'', ''ACE'', ''NME'')] = Inr (gly_capped, []) \<and>
   list_all (\<lambda>c. capped gly_capped (fst c)) [(''P'', ''ACE'', ''NME'')] \<and>
   applyCaps gly_capped [(''P'', ''ACE'', ''NME'')] =
     Inr (gly_capped, [Warning ''ACE and NME caps detected on segid P.''])"
proof -
  have first: "applyCaps gly [(''P'', ''ACE'', ''NME'')] = Inr (gly_capped, [])" by code_simp
  have c: "list_all (\<lambda>c. capped gly_capped (fst c)) [(''P'', ''ACE'', ''NME'')]"
    by code_simp
  from applyCaps_capped_noop [OF c] first c show ?thesis by simp
qed

text \<open>
  The claim as stated speaks of the configured cap names. With the configuration ACE and
  NHE for segment P, the first invocation caps the glycine; both configured names then occur
  on the segment, and the second invocation finds no NME residue, looks for a terminal
  hydrogen on the cap residue and raises \<open>AssertionError\<close>.
\<close>

theorem applyCaps_configured_counterexample:
  "applyCaps gly [(''P'', ''ACE'', ''NHE'')] = Inr (gly_nhe, []) \<and>
   np_any (atomselect gly_nhe (And (Segid ''P'') (Resname ''ACE''))) \<and>
   np_any (atomselect gly_nhe (And (Segid ''P'') (Resname ''NHE''))) \<and>
   applyCaps gly_nhe [(''P'', ''ACE'', ''NHE'')] =
     Inl (AssertionError ''Segment P, resid 0 should have an H2, an HT2, or an H atom. Cannot cap.'')"
  by code_simp

section \<open>Properties of the disulfide patcher\<close>

lemma length_atomselect [simp]: "length (atomselect mol s) = numAtoms mol"
  by (simp add: atomselect_def)

lemma atomselect_set_cyx [simp]:
  "atomselect (set_cyx mol seg res) (And (Segid seg') (Resid res')) =
   atomselect mol (And (Segid seg') (Resid res'))"
  by (simp add: atomselect_def set_cyx_def numAtoms_def)

lemma mask_set_commute:
  "mask_set a v (mask_set b v xs) = mask_set b v (mask_set a v xs)"
proof (rule nth_equalityI)
  show "length (mask_set a v (mask_set b v xs)) = length (mask_set b v (mask_set a v xs))"
    by (simp add: min.left_commute)
  fix i assume "i < length (mask_set a v (mask_set b v xs))"
  then have "i < length a" "i < length b" "i < length xs" by simp_all
  then show "mask_set a v (mask_set b v xs) ! i = mask_set b v (mask_set a v xs) ! i"
    by (simp add: nth_mask_set)
qed

lemma set_cyx_twice:
  "set_cyx (set_cyx mol s1 r1) s2 r2 =
     mol\<lparr>resname := mask_set (atomselect mol (And (Segid s2) (Resid r2))) ''CYX''
                        (mask_set (atomselect mol (And (Segid s1) (Resid r1))) ''CYX'' (resname mol))\<rparr>"
proof -
  have "set_cyx (set_cyx mol s1 r1) s2 r2 =
      (set_cyx mol s1 r1)\<lparr>resname := mask_set (atomselect mol (And (Segid s2) (Resid r2))) ''CYX''
                        (resname (set_cyx mol s1 r1))\<rparr>"
    by (simp add: set_cyx_def [of "set_cyx mol s1 r1"])
  then show ?thesis by (simp add: set_cyx_def)
qed

lemma set_cyx_commute:
  "set_cyx (set_cyx mol s1 r1) s2 r2 = set_cyx (set_cyx mol s2 r2) s1 r1"
  unfolding set_cyx_twice by (simp add: mask_set_commute)

lemma uqres_error: "uqres mol u seg res = Inl e \<Longrightarrow> e = TypeError"
  by (auto simp: uqres_def split: list.splits)

text \<open>
  Claim C5, as amended. For every structure and every pair, processing the pair given as
  (B, A) ends as processing it given as (A, B) does: with the same error, or with the same
  renamed structure and a bond directive that names the same two sequence ids with its
  two endpoints exchanged.
\<close>

theorem disulfide_swap:
  "map_sum id (\<lambda>(m, a, b). (m, bond_line a b)) (disu_bond mol (swap_pair d)) =
   map_sum id (\<lambda>(m, a, b). (m, bond_line b a)) (disu_bond mol d)"
  by (cases "resid mol")
     (auto simp: disu_bond_def swap_pair_def Let_def set_cyx_commute split: sum.splits
           dest!: uqres_error)

text \<open>
  The claim as stated has the emitted directive identical. For two cysteines with the
  sequence ids 0 and 1 the pair writes \<open>bond mol.0.SG mol.1.SG\<close> and the exchanged pair
  writes \<open>bond mol.1.SG mol.0.SG\<close>; the renaming is the same.
\<close>

theorem disulfide_swap_counterexample:
  "disu_loop [cys_pair] two_cys [] =
     (None, two_cys\<lparr>resname := [''CYX'', ''CYX'']\<rparr>, [''bond mol.0.SG mol.1.SG'' @ nl]) \<and>
   disu_loop [swap_pair cys_pair] two_cys [] =
     (None, two_cys\<lparr>resname := [''CYX'', ''CYX'']\<rparr>, [''bond mol.1.SG mol.0.SG'' @ nl]) \<and>
   ''bond mol.0.SG mol.1.SG'' @ nl \<noteq> ''bond mol.1.SG mol.0.SG'' @ nl"
  by code_simp

theorem disulfide_swap_witness:
  "disu_bond two_cys cys_pair = Inr (two_cys\<lparr>resname := [''CYX'', ''CYX'']\<rparr>, 0, 1) \<and>
   map_sum id (\<lambda>(m, a, b). (m, bond_line a b)) (disu_bond two_cys (swap_pair cys_pair)) =
     Inr (two_cys\<lparr>resname := [''CYX'', ''CYX'']\<rparr>, bond_line 1 0)"
proof -
  have d: "disu_bond two_cys cys_pair = Inr (two_cys\<lparr>resname := [''CYX'', ''CYX'']\<rparr>, 0, 1)"
    by code_simp
  from disulfide_swap [of two_cys cys_pair] d show ?thesis by simp
qed

section \<open>Properties of the orchestrator\<close>

lemma passes_ops [simp]:
  "passes (say msgs w) = passes w" "passes (alloc m w) = passes w"
  "passes (store n m w) = passes w" "passes (purge w) = passes w"
  "passes (open_script w) = passes w" "passes (f_write chunks w) = passes w"
  "passes (write_input m w) = passes w" "passes (write_structure m w) = passes w"
  "passes (enter cfg w) = passes w @ [(caps cfg, ionize cfg)]"
  by (simp_all add: say_def alloc_def store_def purge_def open_script_def f_write_def
        write_input_def write_structure_def enter_def)

lemma build_entry_passes: "passes (fst (build_entry w a)) = passes w"
  by (simp add: build_entry_def Let_def)

lemma build_convert_passes: "passes (snd (build_convert e cfg w n)) = passes w"
  by (simp add: build_convert_def split: option.splits sum.splits prod.splits)

lemma build_script_passes: "passes (snd (build_script e cfg w n)) = passes w"
  by (simp add: build_script_def split: option.splits prod.splits)

lemma build_execute_passes: "passes (snd (build_execute e cfg w n d)) = passes w"
  by (simp add: build_execute_def split: tleap_outcome.splits)

lemma build_pass_passes:
  "passes (snd (build_pass e cfg w a)) = passes w @ [(caps cfg, ionize cfg)]"
proof (cases "length (heap w) \<le> a")
  case True
  then show ?thesis by (simp add: build_pass_def)
next
  case False
  let ?w0 = "enter cfg w"
  obtain w2 n where en: "build_entry ?w0 a = (w2, n)" by (cases "build_entry ?w0 a")
  have p2: "passes w2 = passes ?w0" using build_entry_passes [of ?w0 a] en by simp
  obtain r6 w6 where cv: "build_convert e cfg w2 n = (r6, w6)" by (cases "build_convert e cfg w2 n")
  have p6: "passes w6 = passes w2" using build_convert_passes [of e cfg w2 n] cv by simp
  show ?thesis
  proof (cases r6)
    case (Inl err)
    then show ?thesis using False en cv p2 p6 by (simp add: build_pass_def)
  next
    case (Inr n2)
    obtain r9 w9 where sc: "build_script e cfg w6 n2 = (r9, w9)" by (cases "build_script e cfg w6 n2")
    have p9: "passes w9 = passes w6" using build_script_passes [of e cfg w6 n2] sc by simp
    show ?thesis
    proof (cases r9)
      case (Inl err)
      then show ?thesis using False en cv Inr sc p2 p6 p9 by (simp add: build_pass_def)
    next
      case (Inr d)
      have "passes (snd (build_execute e cfg w9 n2 d)) = passes w9"
        by (rule build_execute_passes)
      then show ?thesis
        using False en cv \<open>r6 = Inr n2\<close> sc Inr p2 p6 p9 by (simp add: build_pass_def)
    qed
  qed
qed

lemma build_pass_rebuild_opts:
  "build_pass e cfg w a = (Rebuild newmol cfg', w') \<Longrightarrow>
     ionize cfg \<and> execute cfg \<and> caps cfg' = Some [] \<and> \<not> ionize cfg'"
  by (auto simp: build_pass_def build_execute_def rebuild_opts_def
           split: if_splits prod.splits sum.splits tleap_outcome.splits)

text \<open>
  Claim C8. \<open>build\<close> is a total function: the recursion ends because the only recursive
  call is made with ionization on and passes ionization off. Every top-level invocation
  enters the body once, or twice: a second entry happens only with ionization and
  execution on, and it runs with the empty cap configuration and without ionization, so
  it does not lead to a third.
\<close>

theorem build_bounded_rebuild:
  "passes (snd (build e cfg w a)) = passes w @ [(caps cfg, ionize cfg)] \<or>
   ionize cfg \<and> execute cfg \<and>
   passes (snd (build e cfg w a)) = passes w @ [(caps cfg, True), (Some [], False)]"
proof -
  obtain r w' where bp: "build_pass e cfg w a = (r, w')" by (cases "build_pass e cfg w a")
  have p1: "passes w' = passes w @ [(caps cfg, ionize cfg)]"
    using build_pass_passes [of e cfg w a] bp by simp
  show ?thesis
  proof (cases r)
    case (Failed err)
    then show ?thesis using bp p1 by (simp add: build.simps [of e cfg w a])
  next
    case (Done b)
    then show ?thesis using bp p1 by (simp add: build.simps [of e cfg w a])
  next
    case (Rebuild newmol cfg')
    from build_pass_rebuild_opts [OF bp [unfolded Rebuild]]
    have c: "ionize cfg" "execute cfg" "caps cfg' = Some []" "\<not> ionize cfg'" by simp_all
    obtain r2 w2 where bp2: "build_pass e cfg' w' newmol = (r2, w2)"
      by (cases "build_pass e cfg' w' newmol")
    have p2: "passes w2 = passes w' @ [(Some [], False)]"
      using build_pass_passes [of e cfg' w' newmol] bp2 c by simp
    have "passes (snd (build e cfg' w' newmol)) = passes w2"
    proof (cases r2)
      case (Failed err)
      then show ?thesis using bp2 by (simp add: build.simps [of e cfg' w' newmol])
    next
      case (Done b)
      then show ?thesis using bp2 by (simp add: build.simps [of e cfg' w' newmol])
    next
      case (Rebuild n c'')
      with build_pass_rebuild [of e cfg' w' newmol n c'' w2] bp2 c(4) show ?thesis by simp
    qed
    then have "passes (snd (build e cfg w a)) = passes w2"
      using bp Rebuild by (simp add: build.simps [of e cfg w a])
    then show ?thesis using p1 p2 c by simp
  qed
qed

theorem build_bounded_rebuild_witness:
  "ionize ex_opts \<and> execute ex_opts \<and>
   passes (snd (build ex_env ex_opts ex_world 0)) = passes ex_world @ [(caps ex_opts, True), (Some [], False)] \<and>
   passes (snd (build ex_env (ex_opts\<lparr>ionize := False\<rparr>) ex_world 0)) = passes ex_world @ [(None, False)]"
proof -
  have a: "passes (snd (build ex_env ex_opts ex_world 0)) \<noteq> passes ex_world @ [(caps ex_opts, ionize ex_opts)]"
    by code_simp
  have b: "\<not> ionize (ex_opts\<lparr>ionize := False\<rparr>)" by simp
  from build_bounded_rebuild [of ex_env ex_opts ex_world 0] a
    build_bounded_rebuild [of ex_env "ex_opts\<lparr>ionize := False\<rparr>" ex_world 0] b
  show ?thesis by (simp add: ex_opts_def)
qed

lemma heap_ops [simp]:
  "heap (say msgs w) = heap w" "heap (alloc m w) = heap w @ [m]"
  "heap (store n m w) = (heap w)[n := m]" "heap (purge w) = heap w"
  "heap (open_script w) = heap w" "heap (f_write chunks w) = heap w"
  "heap (write_input m w) = heap w" "heap (write_structure m w) = heap w"
  "heap (enter cfg w) = heap w" "heap (put a x w) = (heap w)[a := x]"
  by (simp_all add: say_def alloc_def store_def purge_def open_script_def f_write_def
        write_input_def write_structure_def enter_def put_def)

lemma put_read [simp]:
  "tleap_in (put a x w) = tleap_in w" "input_pdb (put a x w) = input_pdb w"
  by (simp_all add: put_def)

lemma put_ops:
  "say msgs (put a x w) = put a x (say msgs w)"
  "purge (put a x w) = put a x (purge w)"
  "open_script (put a x w) = put a x (open_script w)"
  "f_write chunks (put a x w) = put a x (f_write chunks w)"
  "write_input m (put a x w) = put a x (write_input m w)"
  "write_structure m (put a x w) = put a x (write_structure m w)"
  "enter cfg (put a x w) = put a x (enter cfg w)"
  by (simp_all add: say_def purge_def open_script_def f_write_def
        write_input_def write_structure_def enter_def put_def)

lemma put_alloc: "a < length (heap w) \<Longrightarrow> alloc m (put a x w) = put a x (alloc m w)"
  by (simp add: alloc_def put_def list_update_append1)

lemma put_store: "a \<noteq> n \<Longrightarrow> store n m (put a x w) = put a x (store n m w)"
  by (simp add: store_def put_def list_update_swap)

lemma store_alloc [simp]: "store (length (heap w)) m' (alloc m w) = alloc m' w"
  by (simp add: store_def alloc_def)

lemma entry_frame:
  assumes "a < length (heap w)" "a \<noteq> c"
  shows "build_entry (put a x w) c = (put a x (fst (build_entry w c)), snd (build_entry w c))"
  using assms by (simp add: build_entry_def Let_def put_alloc put_store)

lemma entry_bonds:
  assumes "a < length (heap w)"
  shows "build_entry (put a ((heap w ! a)\<lparr>bonds := b\<rparr>) w) a =
           (put a ((heap w ! a)\<lparr>bonds := b\<rparr>) (fst (build_entry w a)), snd (build_entry w a))"
proof -
  have ne: "a \<noteq> length (heap w)" using assms by simp
  show ?thesis
    using assms by (simp add: build_entry_def Let_def put_alloc put_store [OF ne])
qed

lemma entry_shape:
  "snd (build_entry w a) = length (heap w)"
  "length (heap (fst (build_entry w a))) = Suc (length (heap w))"
  by (simp_all add: build_entry_def Let_def)

lemma convert_frame:
  assumes "a < length (heap w)" "a \<noteq> n"
  shows "build_convert e cfg (put a x w) n =
           (fst (build_convert e cfg w n), put a x (snd (build_convert e cfg w n)))"
  using assms
  by (simp add: build_convert_def put_ops put_alloc put_store
           split: option.splits sum.splits prod.splits)

lemma convert_shape:
  "length (heap w) \<le> length (heap (snd (build_convert e cfg w n)))"
  "fst (build_convert e cfg w n) = Inr n2 \<Longrightarrow>
      n2 = length (heap w) \<and> n2 < length (heap (snd (build_convert e cfg w n)))"
  by (auto simp: build_convert_def split: option.splits sum.splits prod.splits if_splits)

lemma script_frame:
  assumes "a < length (heap w)" "a \<noteq> n"
  shows "build_script e cfg (put a x w) n =
           (fst (build_script e cfg w n), put a x (snd (build_script e cfg w n)))"
  using assms
  by (simp add: build_script_def put_ops put_store split: option.splits prod.splits)

lemma script_shape:
  "length (heap (snd (build_script e cfg w n))) = length (heap w)"
  by (simp add: build_script_def split: option.splits prod.splits)

lemma pdb_of_put: "a \<noteq> n \<Longrightarrow> pdb_of (put a x w) n = pdb_of w n"
  by (simp add: pdb_of_def split: option.splits)

lemma execute_frame:
  assumes "a < length (heap w)" "a \<noteq> n"
  shows "build_execute e cfg (put a x w) n d =
           (fst (build_execute e cfg w n d), put a x (snd (build_execute e cfg w n d)))"
  using assms
  by (simp add: build_execute_def put_ops put_alloc pdb_of_put split: tleap_outcome.splits)

lemma execute_shape:
  "length (heap w) \<le> length (heap (snd (build_execute e cfg w n d)))"
  "fst (build_execute e cfg w n d) = Rebuild nn c \<Longrightarrow>
      length (heap w) < nn \<and> nn < length (heap (snd (build_execute e cfg w n d)))"
  by (auto simp: build_execute_def split: tleap_outcome.splits if_splits)

lemma pass_from_entry:
  assumes a: "a < length (heap w)" and c: "\<not> length (heap w) \<le> c"
    and en: "build_entry (put a x (enter cfg w)) c =
               (put a x (fst (build_entry (enter cfg w) c)), snd (build_entry (enter cfg w) c))"
  shows "build_pass e cfg (put a x w) c =
           (fst (build_pass e cfg w c), put a x (snd (build_pass e cfg w c)))"
proof -
  let ?w0 = "enter cfg w"
  obtain w2 n where e0: "build_entry ?w0 c = (w2, n)" by (cases "build_entry ?w0 c")
  have n: "n = length (heap w)" and l2: "length (heap w2) = Suc (length (heap w))"
    using entry_shape [of ?w0 c] e0 by simp_all
  have e1: "build_entry (enter cfg (put a x w)) c = (put a x w2, n)"
    using en e0 by (simp add: put_ops)
  have a2: "a < length (heap w2)" "a \<noteq> n" using a n l2 by simp_all
  obtain r6 w6 where cv: "build_convert e cfg w2 n = (r6, w6)" by (cases "build_convert e cfg w2 n")
  have cv1: "build_convert e cfg (put a x w2) n = (r6, put a x w6)"
    using convert_frame [OF a2, of e cfg x] cv by simp
  have l6: "length (heap w2) \<le> length (heap w6)"
    using convert_shape(1) [of w2 e cfg n] cv by simp
  show ?thesis
  proof (cases r6)
    case (Inl err)
    then show ?thesis using c e0 e1 cv cv1 by (simp add: build_pass_def)
  next
    case (Inr n2)
    have n2: "n2 = length (heap w2)"
      using convert_shape(2) [of e cfg w2 n n2] cv Inr by simp
    have a6: "a < length (heap w6)" "a \<noteq> n2" using a2 l6 n2 by simp_all
    obtain r9 w9 where sc: "build_script e cfg w6 n2 = (r9, w9)" by (cases "build_script e cfg w6 n2")
    have sc1: "build_script e cfg (put a x w6) n2 = (r9, put a x w9)"
      using script_frame [OF a6, of e cfg x] sc by simp
    have l9: "length (heap w9) = length (heap w6)"
      using script_shape [of e cfg w6 n2] sc by simp
    show ?thesis
    proof (cases r9)
      case (Inl err)
      then show ?thesis using c e0 e1 cv cv1 \<open>r6 = Inr n2\<close> sc sc1 by (simp add: build_pass_def)
    next
      case (Inr d)
      have a9: "a < length (heap w9)" using a6 l9 by simp
      have "build_execute e cfg (put a x w9) n2 d =
          (fst (build_execute e cfg w9 n2 d), put a x (snd (build_execute e cfg w9 n2 d)))"
        by (rule execute_frame [OF a9 a6(2)])
      then show ?thesis
        using c e0 e1 cv cv1 \<open>r6 = Inr n2\<close> sc sc1 Inr by (simp add: build_pass_def)
    qed
  qed
qed

lemma pass_frame:
  assumes "a < length (heap w)" "a \<noteq> c"
  shows "build_pass e cfg (put a x w) c =
           (fst (build_pass e cfg w c), put a x (snd (build_pass e cfg w c)))"
proof (cases "length (heap w) \<le> c")
  case True
  then show ?thesis by (simp add: build_pass_def put_ops)
next
  case False
  show ?thesis
    using assms by (intro pass_from_entry [OF assms(1) False] entry_frame) simp_all
qed

lemma pass_bonds:
  assumes "a < length (heap w)"
  shows "build_pass e cfg (put a ((heap w ! a)\<lparr>bonds := b\<rparr>) w) a =
           (fst (build_pass e cfg w a),
            put a ((heap w ! a)\<lparr>bonds := b\<rparr>) (snd (build_pass e cfg w a)))"
proof -
  have "\<not> length (heap w) \<le> a" using assms by simp
  moreover have "build_entry (put a ((heap w ! a)\<lparr>bonds := b\<rparr>) (enter cfg w)) a =
      (put a ((heap w ! a)\<lparr>bonds := b\<rparr>) (fst (build_entry (enter cfg w) a)),
       snd (build_entry (enter cfg w) a))"
    using entry_bonds [of a "enter cfg w" b] assms by simp
  ultimately show ?thesis by (rule pass_from_entry [OF assms])
qed

lemma pass_shape:
  "length (heap w) \<le> length (heap (snd (build_pass e cfg w c)))"
  "fst (build_pass e cfg w c) = Rebuild nn cfg' \<Longrightarrow> length (heap w) < nn"
proof -
  let ?w0 = "enter cfg w"
  obtain w2 n where e0: "build_entry ?w0 c = (w2, n)" by (cases "build_entry ?w0 c")
  have l2: "length (heap w2) = Suc (length (heap w))"
    using entry_shape [of ?w0 c] e0 by simp
  obtain r6 w6 where cv: "build_convert e cfg w2 n = (r6, w6)" by (cases "build_convert e cfg w2 n")
  have l6: "length (heap w2) \<le> length (heap w6)"
    using convert_shape(1) [of w2 e cfg n] cv by simp
  have both: "length (heap w) \<le> length (heap (snd (build_pass e cfg w c))) \<and>
      (fst (build_pass e cfg w c) = Rebuild nn cfg' \<longrightarrow> length (heap w) < nn)"
  proof (cases "length (heap w) \<le> c")
    case True
    then show ?thesis by (simp add: build_pass_def)
  next
    case False
    note c = False
    show ?thesis
    proof (cases r6)
      case (Inl err)
      then show ?thesis using c e0 cv l2 l6 by (simp add: build_pass_def)
    next
      case (Inr n2)
      obtain r9 w9 where sc: "build_script e cfg w6 n2 = (r9, w9)" by (cases "build_script e cfg w6 n2")
      have l9: "length (heap w9) = length (heap w6)"
        using script_shape [of e cfg w6 n2] sc by simp
      show ?thesis
      proof (cases r9)
        case (Inl err)
        then show ?thesis using c e0 cv \<open>r6 = Inr n2\<close> sc l2 l6 l9 by (simp add: build_pass_def)
      next
        case (Inr d)
        have p: "build_pass e cfg w c = build_execute e cfg w9 n2 d"
          using c e0 cv \<open>r6 = Inr n2\<close> sc Inr by (simp add: build_pass_def)
        show ?thesis
          unfolding p
          using execute_shape(1) [of w9 e cfg n2 d] execute_shape(2) [of e cfg w9 n2 d nn cfg']
            l2 l6 l9 by auto
      qed
    qed
  qed
  from both show "length (heap w) \<le> length (heap (snd (build_pass e cfg w c)))" by simp
  from both show "fst (build_pass e cfg w c) = Rebuild nn cfg' \<Longrightarrow> length (heap w) < nn" by simp
qed

lemma build_frame:
  "a < length (heap w) \<Longrightarrow> a \<noteq> c \<Longrightarrow>
   build e cfg (put a x w) c = (fst (build e cfg w c), put a x (snd (build e cfg w c)))"
proof (induction e cfg w c rule: build.induct)
  case (1 e cfg w c)
  obtain r w' where bp: "build_pass e cfg w c = (r, w')" by (cases "build_pass e cfg w c")
  have bp1: "build_pass e cfg (put a x w) c = (r, put a x w')"
    using pass_frame [OF "1.prems", of e cfg x] bp by simp
  show ?case
  proof (cases r)
    case (Failed err)
    then show ?thesis using bp bp1 by (simp add: build.simps [of e cfg _ c])
  next
    case (Done b)
    then show ?thesis using bp bp1 by (simp add: build.simps [of e cfg _ c])
  next
    case (Rebuild nn cfg')
    have l: "length (heap w) \<le> length (heap w')" "length (heap w) < nn"
      using pass_shape(1) [of w e cfg c] pass_shape(2) [of e cfg w c nn cfg'] bp Rebuild by simp_all
    have a': "a < length (heap w')" "a \<noteq> nn" using "1.prems"(1) l by simp_all
    have "build e cfg' (put a x w') nn = (fst (build e cfg' w' nn), put a x (snd (build e cfg' w' nn)))"
      using "1.IH" [OF bp [symmetric] Rebuild a'] .
    then show ?thesis
      using bp bp1 Rebuild by (simp add: build.simps [of e cfg _ c])
  qed
qed

lemma build_shape: "length (heap w) \<le> length (heap (snd (build e cfg w c)))"
proof (induction e cfg w c rule: build.induct)
  case (1 e cfg w c)
  obtain r w' where bp: "build_pass e cfg w c = (r, w')" by (cases "build_pass e cfg w c")
  have l: "length (heap w) \<le> length (heap w')"
    using pass_shape(1) [of w e cfg c] bp by simp
  show ?case
  proof (cases r)
    case (Failed err)
    then show ?thesis using bp l by (simp add: build.simps [of e cfg w c])
  next
    case (Done b)
    then show ?thesis using bp l by (simp add: build.simps [of e cfg w c])
  next
    case (Rebuild nn cfg')
    have "length (heap w') \<le> length (heap (snd (build e cfg' w' nn)))"
      using "1.IH" [OF bp [symmetric] Rebuild] .
    then show ?thesis using bp l Rebuild by (simp add: build.simps [of e cfg w c])
  qed
qed

lemma build_bonds:
  assumes "a < length (heap w)"
  shows "build e cfg (put a ((heap w ! a)\<lparr>bonds := b\<rparr>) w) a =
           (fst (build e cfg w a), put a ((heap w ! a)\<lparr>bonds := b\<rparr>) (snd (build e cfg w a)))"
proof -
  let ?x = "(heap w ! a)\<lparr>bonds := b\<rparr>"
  obtain r w' where bp: "build_pass e cfg w a = (r, w')" by (cases "build_pass e cfg w a")
  have bp1: "build_pass e cfg (put a ?x w) a = (r, put a ?x w')"
    using pass_bonds [OF assms, of e cfg b] bp by simp
  show ?thesis
  proof (cases r)
    case (Failed err)
    then show ?thesis using bp bp1 by (simp add: build.simps [of e cfg _ a])
  next
    case (Done m)
    then show ?thesis using bp bp1 by (simp add: build.simps [of e cfg _ a])
  next
    case (Rebuild nn cfg')
    have l: "length (heap w) \<le> length (heap w')" "length (heap w) < nn"
      using pass_shape(1) [of w e cfg a] pass_shape(2) [of e cfg w a nn cfg'] bp Rebuild by simp_all
    have a': "a < length (heap w')" "a \<noteq> nn" using assms l by simp_all
    have "build e cfg' (put a ?x w') nn = (fst (build e cfg' w' nn), put a ?x (snd (build e cfg' w' nn)))"
      by (rule build_frame [OF a'])
    then show ?thesis
      using bp bp1 Rebuild by (simp add: build.simps [of e cfg _ a])
  qed
qed

lemma put_same: "put a (heap w ! a) w = w"
  by (simp add: put_def)

lemma build_keeps_objects:
  assumes "i < length (heap w)"
  shows "heap (snd (build e cfg w a)) ! i = heap w ! i"
proof -
  have li: "i < length (heap (snd (build e cfg w a)))"
    using assms build_shape [of w e cfg a] by simp
  have fr: "build e cfg (put i (heap w ! i) w) a =
        (fst (build e cfg w a), put i (heap w ! i) (snd (build e cfg w a)))"
  proof (cases "i = a")
    case True
    have x: "(heap w ! a)\<lparr>bonds := bonds (heap w ! a)\<rparr> = heap w ! a" by simp
    from build_bonds [of a w e cfg "bonds (heap w ! a)"] assms True
    show ?thesis by (simp only: x)
  next
    case False
    then show ?thesis using assms by (intro build_frame) simp_all
  qed
  from arg_cong [OF fr, of snd]
  have "snd (build e cfg w a) = put i (heap w ! i) (snd (build e cfg w a))"
    by (simp only: put_same snd_conv)
  then have "heap (snd (build e cfg w a)) ! i = heap (put i (heap w ! i) (snd (build e cfg w a))) ! i"
    by simp
  then show ?thesis using li by simp
qed

text \<open>
  Claim C9. \<open>build\<close> works on a copy: no Molecule object that exists when \<open>build\<close> is
  called is changed by it, the caller's one included, whatever way the call ends. The copy
  it works on has an empty bond list from the entry on, and the bond list of the input
  has no influence on anything \<open>build\<close> produces: with any other bond list in the
  caller's Molecule the call returns the same result and leaves the same state (the same
  script, the same written structure files, the same log, the same new objects), but for
  the caller's Molecule itself. So the bond directives of the script never come from
  the input's bond list.
\<close>

theorem build_private_copy:
  assumes "a < length (heap w)"
  shows "take (length (heap w)) (heap (snd (build e cfg w a))) = heap w \<and>
         bonds (heap (fst (build_entry w a)) ! snd (build_entry w a)) = [] \<and>
         build e cfg (put a ((heap w ! a)\<lparr>bonds := b\<rparr>) w) a =
           (fst (build e cfg w a), put a ((heap w ! a)\<lparr>bonds := b\<rparr>) (snd (build e cfg w a))) \<and>
         tleap_in (snd (build e cfg (put a ((heap w ! a)\<lparr>bonds := b\<rparr>) w) a)) =
           tleap_in (snd (build e cfg w a)) \<and>
         input_pdb (snd (build e cfg (put a ((heap w ! a)\<lparr>bonds := b\<rparr>) w) a)) =
           input_pdb (snd (build e cfg w a))"
proof (intro conjI)
  show "take (length (heap w)) (heap (snd (build e cfg w a))) = heap w"
    using build_shape [of w e cfg a]
    by (intro nth_equalityI) (simp_all add: build_keeps_objects)
  show "bonds (heap (fst (build_entry w a)) ! snd (build_entry w a)) = []"
    by (simp add: build_entry_def Let_def)
  show eq: "build e cfg (put a ((heap w ! a)\<lparr>bonds := b\<rparr>) w) a =
           (fst (build e cfg w a), put a ((heap w ! a)\<lparr>bonds := b\<rparr>) (snd (build e cfg w a)))"
    by (rule build_bonds [OF assms])
  show "tleap_in (snd (build e cfg (put a ((heap w ! a)\<lparr>bonds := b\<rparr>) w) a)) =
           tleap_in (snd (build e cfg w a))"
    by (simp add: eq)
  show "input_pdb (snd (build e cfg (put a ((heap w ! a)\<lparr>bonds := b\<rparr>) w) a)) =
           input_pdb (snd (build e cfg w a))"
    by (simp add: eq)
qed

theorem build_private_copy_witness:
  "0 < length (heap ex_world) \<and> bonds (heap ex_world ! 0) = [(0, 1), (0, 4)] \<and>
   heap (snd (build ex_env ex_opts ex_world 0)) ! 0 = heap ex_world ! 0 \<and>
   fst (build ex_env ex_opts (put 0 ((heap ex_world ! 0)\<lparr>bonds := []\<rparr>) ex_world) 0) =
     fst (build ex_env ex_opts ex_world 0)"
proof -
  have a: "0 < length (heap ex_world)" by (simp add: ex_world_def)
  have b: "bonds (heap ex_world ! 0) = [(0, 1), (0, 4)]" by (simp add: ex_world_def)
  from build_private_copy [OF a, of ex_env ex_opts "[]"]
  have t: "take (length (heap ex_world)) (heap (snd (build ex_env ex_opts ex_world 0))) = heap ex_world"
    and f: "fst (build ex_env ex_opts (put 0 ((heap ex_world ! 0)\<lparr>bonds := []\<rparr>) ex_world) 0) =
     fst (build ex_env ex_opts ex_world 0)"
    by simp_all
  from t have "take (length (heap ex_world)) (heap (snd (build ex_env ex_opts ex_world 0))) ! 0 = heap ex_world ! 0"
    by simp
  then have "heap (snd (build ex_env ex_opts ex_world 0)) ! 0 = heap ex_world ! 0"
    using a by simp
  with a b f show ?thesis by simp
qed

end
